theory Spec2Isabelle
  imports Complex_Main "HOL-Library.AList"
begin

section \<open>Time\<close>

text \<open>
  A Go \<open>time.Time\<close> is modelled as the number of nanoseconds since the zero instant
  \<open>time.Time{}\<close>, a \<open>time.Duration\<close> as a number of nanoseconds. \<open>Time.Sub\<close>
  saturates at the bounds of a 64-bit duration, as the Go library documents.
\<close>

type_synonym Time = int
type_synonym Duration = int

definition zeroTime :: Time where
  "zeroTime = 0"

definition IsZero :: "Time \<Rightarrow> bool" where
  "IsZero t = (t = zeroTime)"

definition After :: "Time \<Rightarrow> Time \<Rightarrow> bool" where
  "After t u = (u < t)"

definition Before :: "Time \<Rightarrow> Time \<Rightarrow> bool" where
  "Before t u = (t < u)"

definition Add :: "Time \<Rightarrow> Duration \<Rightarrow> Time" where
  "Add t d = t + d"

definition maxDuration :: Duration where
  "maxDuration = 2 ^ 63 - 1"

definition minDuration :: Duration where
  "minDuration = - (2 ^ 63)"

definition Sub :: "Time \<Rightarrow> Time \<Rightarrow> Duration" where
  "Sub t u = max minDuration (min maxDuration (t - u))"

definition Second :: Duration where
  "Second = 1000000000"

definition Minute :: Duration where
  "Minute = 60 * Second"

definition Millisecond :: Duration where
  "Millisecond = 1000000"

section \<open>Threshold evaluator: statuses and the soft-period state\<close>

text \<open>
  Modelled from the spec: the declaration of \<open>types.Status\<close> lives in package
  \<open>types\<close>, which is not among the sources. The spec lists the tagged variants
  ok, warning, critical, unknown and unset; \<open>StatusUnset\<close> is the value of a state
  that has never been updated.
\<close>

datatype Status = StatusUnset | StatusOk | StatusWarning | StatusCritical | StatusUnknown

record statusState =
  CurrentStatus :: Status
  CriticalSince :: Time
  WarningSince :: Time
  LastUpdate :: Time

text \<open>The zero value of the struct: what a Go map returns for an absent key.\<close>

definition zeroState :: statusState where
  "zeroState = \<lparr>CurrentStatus = StatusUnset, CriticalSince = zeroTime,
     WarningSince = zeroTime, LastUpdate = zeroTime\<rparr>"

text \<open>
  \<open>statusState.Update\<close>. The argument \<open>now\<close> is the instant the caller passes; \<open>wall\<close>
  is the clock reading \<open>time.Now()\<close> that the method takes itself for \<open>LastUpdate\<close>.
\<close>

definition Update :: "statusState \<Rightarrow> Status \<Rightarrow> Duration \<Rightarrow> Time \<Rightarrow> Time \<Rightarrow> statusState" where
  "Update s newStatus period now wall =
    (let s1 = (if CurrentStatus s = StatusUnset then s\<lparr>CurrentStatus := newStatus\<rparr> else s);
         s2 = (if After (CriticalSince s1) now then s1\<lparr>CriticalSince := zeroTime\<rparr> else s1);
         s3 = (if After (WarningSince s2) now then s2\<lparr>WarningSince := zeroTime\<rparr> else s2);
         (s4, criticalDuration, warningDuration) =
           (case newStatus of
              StatusCritical \<Rightarrow>
                (let a = (if IsZero (CriticalSince s3) then s3\<lparr>CriticalSince := now\<rparr> else s3);
                     b = (if IsZero (WarningSince a) then a\<lparr>WarningSince := now\<rparr> else a)
                 in (b, Sub now (CriticalSince b), Sub now (WarningSince b)))
            | StatusWarning \<Rightarrow>
                (let a = s3\<lparr>CriticalSince := zeroTime\<rparr>;
                     b = (if IsZero (WarningSince a) then a\<lparr>WarningSince := now\<rparr> else a)
                 in (b, 0, Sub now (WarningSince b)))
            | _ \<Rightarrow> (s3\<lparr>CriticalSince := zeroTime, WarningSince := zeroTime\<rparr>, 0, 0));
         s5 = (if period = 0 then s4\<lparr>CurrentStatus := newStatus\<rparr>
               else if criticalDuration \<ge> period then s4\<lparr>CurrentStatus := StatusCritical\<rparr>
               else if warningDuration \<ge> period then s4\<lparr>CurrentStatus := StatusWarning\<rparr>
               else if CurrentStatus s4 = StatusCritical \<and> newStatus = StatusWarning
                 then s4\<lparr>CurrentStatus := StatusWarning\<rparr>
               else if newStatus = StatusOk then s4\<lparr>CurrentStatus := StatusOk\<rparr>
               else s4)
     in s5\<lparr>LastUpdate := wall\<rparr>)"

text \<open>A sequence of updates of one state: raw status, period, instant, clock reading.\<close>

fun updates :: "statusState \<Rightarrow> (Status \<times> Duration \<times> Time \<times> Time) list \<Rightarrow> statusState" where
  "updates s [] = s"
| "updates s ((st, period, now, wall) # us) = updates (Update s st period now wall) us"

text \<open>The current statuses of one state updated with a stream of raw statuses.\<close>

fun emitted :: "statusState \<Rightarrow> Duration \<Rightarrow> (Status \<times> Time) list \<Rightarrow> Status list" where
  "emitted s period [] = []"
| "emitted s period ((st, now) # xs) =
    CurrentStatus (Update s st period now now) # emitted (Update s st period now now) period xs"

text \<open>
  The two since-fields are ordered: when \<open>CriticalSince\<close> is set, \<open>WarningSince\<close> is set
  too and is not later.
\<close>

definition sinceOrdered :: "statusState \<Rightarrow> bool" where
  "sinceOrdered s =
    (CriticalSince s = 0 \<or> (WarningSince s \<noteq> 0 \<and> WarningSince s \<le> CriticalSince s))"

text \<open>No update of the sequence has a negative soft period.\<close>

fun periodsNonNegative :: "(Status \<times> Duration \<times> Time \<times> Time) list \<Rightarrow> bool" where
  "periodsNonNegative [] = True"
| "periodsNonNegative ((st, period, now, wall) # us) = (0 \<le> period \<and> periodsNonNegative us)"

section \<open>Thresholds\<close>

text \<open>
  A \<open>float64\<close> is used here only through the comparisons \<open><\<close> and \<open>>\<close> and the test
  \<open>math.IsNaN\<close>. For these the value is either not a number, an infinity or a real number;
  a comparison with NaN is false.
\<close>

datatype float64 = NaN | NegInf | Finite real | PosInf

definition IsNaN :: "float64 \<Rightarrow> bool" where
  "IsNaN x = (x = NaN)"

fun flt_less :: "float64 \<Rightarrow> float64 \<Rightarrow> bool" where
  "flt_less NaN _ = False"
| "flt_less _ NaN = False"
| "flt_less _ NegInf = False"
| "flt_less NegInf _ = True"
| "flt_less PosInf _ = False"
| "flt_less (Finite a) (Finite b) = (a < b)"
| "flt_less (Finite a) PosInf = True"

definition flt_greater :: "float64 \<Rightarrow> float64 \<Rightarrow> bool" where
  "flt_greater x y = flt_less y x"

record Threshold =
  LowCritical :: float64
  LowWarning :: float64
  HighWarning :: float64
  HighCritical :: float64

text \<open>\<open>Threshold.CurrentStatus\<close>: the status and the limit that was exceeded.\<close>

definition Threshold_CurrentStatus :: "Threshold \<Rightarrow> float64 \<Rightarrow> Status \<times> float64" where
  "Threshold_CurrentStatus t v =
    (if \<not> IsNaN (LowCritical t) \<and> flt_less v (LowCritical t) then (StatusCritical, LowCritical t)
     else if \<not> IsNaN (LowWarning t) \<and> flt_less v (LowWarning t) then (StatusWarning, LowWarning t)
     else if \<not> IsNaN (HighCritical t) \<and> flt_greater v (HighCritical t) then (StatusCritical, HighCritical t)
     else if \<not> IsNaN (HighWarning t) \<and> flt_greater v (HighWarning t) then (StatusWarning, HighWarning t)
     else (StatusOk, NaN))"

text \<open>
  The rule as the specification words it: critical if the value is below the low critical
  limit or above the high critical limit, else warning if it is below the low warning limit
  or above the high warning limit, else ok.
\<close>

definition spec_raw_status :: "Threshold \<Rightarrow> float64 \<Rightarrow> Status" where
  "spec_raw_status t v =
    (if flt_less v (LowCritical t) \<or> flt_greater v (HighCritical t) then StatusCritical
     else if flt_less v (LowWarning t) \<or> flt_greater v (HighWarning t) then StatusWarning
     else StatusOk)"

section \<open>The threshold registry\<close>

type_synonym MetricNameItem = "string \<times> string"

type_synonym jsonState = "MetricNameItem \<times> statusState"

definition statusCacheKey :: string where
  "statusCacheKey = ''CacheStatusState''"

text \<open>
  The Go map \<open>states\<close> is an association list: the order of the list stands for the order
  in which a \<open>range\<close> loop visits the map, which Go leaves open. \<open>sets\<close> records the calls
  \<open>state.Set(key, object)\<close> made on the key/value store, latest first.
\<close>

record ThresholdRegistry =
  states :: "(MetricNameItem \<times> statusState) list"
  defaultSoftPeriod :: Duration
  softPeriods :: "string \<rightharpoonup> Duration"
  sets :: "(string \<times> jsonState list) list"

text \<open>
  \<open>New\<close>. The store's \<open>Get\<close> is a function from the key to what it leaves in the result
  variable and whether it returns an error.
\<close>

definition New :: "(string \<Rightarrow> jsonState list \<times> bool) \<Rightarrow> ThresholdRegistry" where
  "New get =
    (let (jsonList, err) = get statusCacheKey;
         st = (if err then foldl (\<lambda>m (k, v). AList.update k v m) [] jsonList else [])
     in \<lparr>states = st, defaultSoftPeriod = 300 * Second, softPeriods = Map.empty, sets = []\<rparr>)"

text \<open>The state of a key: the zero value when the map has no entry for it.\<close>

definition lookupState :: "ThresholdRegistry \<Rightarrow> MetricNameItem \<Rightarrow> statusState" where
  "lookupState r key = (case map_of (states r) key of None \<Rightarrow> zeroState | Some s \<Rightarrow> s)"

text \<open>The soft period that \<open>addPointWithThreshold\<close> uses for a key.\<close>

definition periodOf :: "ThresholdRegistry \<Rightarrow> MetricNameItem \<Rightarrow> Duration" where
  "periodOf r key = (case softPeriods r (fst key) of Some tmp \<Rightarrow> tmp | None \<Rightarrow> defaultSoftPeriod r)"

text \<open>
  \<open>pusher.addPointWithThreshold\<close>, as far as the state and the emitted status go: the
  status description is a formatted text and is left out. \<open>now\<close> is the clock reading
  passed to \<open>Update\<close>, \<open>wall\<close> the one \<open>Update\<close> takes itself. The result is the new
  registry and the status carried by both emitted points.
\<close>

definition addPointWithThreshold ::
  "ThresholdRegistry \<Rightarrow> float64 \<Rightarrow> Threshold \<Rightarrow> MetricNameItem \<Rightarrow> Time \<Rightarrow> Time
    \<Rightarrow> ThresholdRegistry \<times> Status" where
  "addPointWithThreshold r v threshold key now wall =
    (let (softStatus, thresholdLimit) = Threshold_CurrentStatus threshold v;
         previousState = lookupState r key;
         period = (case softPeriods r (fst key) of Some tmp \<Rightarrow> tmp | None \<Rightarrow> defaultSoftPeriod r);
         newState = Update previousState softStatus period now wall
     in (r\<lparr>states := AList.update key newState (states r)\<rparr>, CurrentStatus newState))"

text \<open>Points for one key pushed one after the other; the emitted statuses in order.\<close>

fun pushStream ::
  "ThresholdRegistry \<Rightarrow> Threshold \<Rightarrow> MetricNameItem \<Rightarrow> (float64 \<times> Time) list \<Rightarrow> Status list" where
  "pushStream r threshold key [] = []"
| "pushStream r threshold key ((v, now) # ps) =
    (let (r', st) = addPointWithThreshold r v threshold key now now
     in st # pushStream r' threshold key ps)"

text \<open>
  \<open>Registry.run\<close>: one pass over the states map. Entries whose \<open>LastUpdate\<close> is more than
  60 minutes old are deleted, the others are collected in \<open>jsonList\<close>; the list is handed to
  the store only when \<open>save\<close> is set. The clock readings of one pass are taken as the one
  instant \<open>now\<close>.
\<close>

definition run :: "ThresholdRegistry \<Rightarrow> bool \<Rightarrow> Time \<Rightarrow> ThresholdRegistry" where
  "run r save now =
    (let jsonList = filter (\<lambda>(k, v). \<not> (Sub now (LastUpdate v) > 60 * Minute)) (states r);
         r' = r\<lparr>states := jsonList\<rparr>
     in if save then r'\<lparr>sets := (statusCacheKey, jsonList) # sets r'\<rparr> else r')"

text \<open>
  \<open>Registry.Run\<close>. Each element of the list is one wake-up of the \<open>select\<close>: the timer of
  one minute fired, or the context was cancelled; it carries the clock reading taken after
  the wake-up. For a timer wake-up the flag tells whether \<open>ctx.Err()\<close> is set when the loop
  condition is tested next. An empty list is a loop still waiting.
\<close>

datatype wake = Timer Time bool | Cancelled Time

fun Run_loop :: "ThresholdRegistry \<Rightarrow> Time \<Rightarrow> wake list \<Rightarrow> ThresholdRegistry" where
  "Run_loop r lastSave [] = r"
| "Run_loop r lastSave (Cancelled now # ws) = run r True now"
| "Run_loop r lastSave (Timer now err # ws) =
    (let save = (Sub now lastSave > 60 * Minute);
         r' = run r save now;
         lastSave' = (if save then now else lastSave)
     in if err then r' else Run_loop r' lastSave' ws)"

text \<open>
  Every wake-up of the list is one of the timer, at most 60 minutes after \<open>lastSave\<close>.
\<close>

fun quietWakes :: "Time \<Rightarrow> wake list \<Rightarrow> bool" where
  "quietWakes lastSave [] = True"
| "quietWakes lastSave (Cancelled now # ws) = False"
| "quietWakes lastSave (Timer now err # ws) = (now - lastSave \<le> 60 * Minute \<and> quietWakes lastSave ws)"

section \<open>Discovery: the refresh of the service map\<close>

text \<open>
  Modelled from the spec: the struct \<open>Service\<close> is declared in a file of package
  \<open>discovery\<close> that is not among the sources. The spec gives it a name, a container
  identifier, listen addresses, a primary IP address, an executable path, the \<open>Active\<close>
  flag and the \<open>hasNetstatInfo\<close> flag. A \<open>net.Addr\<close> is the pair of its \<open>Network()\<close> and
  its \<open>String()\<close>.
\<close>

type_synonym netAddr = "string \<times> string"

record Service =
  Name :: string
  ContainerID :: string
  ListenAddresses :: "netAddr list"
  IPAddress :: string
  ExePath :: string
  Active :: bool
  hasNetstatInfo :: bool

type_synonym nameContainer = "string \<times> string"

definition keyOf :: "Service \<Rightarrow> nameContainer" where
  "keyOf service = (Name service, ContainerID service)"

text \<open>The first loop of \<open>updateDiscovery\<close>: a copy of the map with every service inactive.\<close>

definition inactiveCopy :: "(nameContainer \<rightharpoonup> Service) \<Rightarrow> (nameContainer \<rightharpoonup> Service)" where
  "inactiveCopy m = (\<lambda>key. map_option (\<lambda>service. service\<lparr>Active := False\<rparr>) (m key))"

text \<open>The second loop: the observed services are written into the copy, in order.\<close>

fun writeBack :: "(nameContainer \<rightharpoonup> Service) \<Rightarrow> Service list \<Rightarrow> (nameContainer \<rightharpoonup> Service)" where
  "writeBack servicesMap [] = servicesMap"
| "writeBack servicesMap (service # r) =
    (let key = (Name service, ContainerID service);
         service' =
           (case servicesMap key of
              Some previousService \<Rightarrow>
                if hasNetstatInfo previousService \<and> \<not> hasNetstatInfo service
                then service\<lparr>ListenAddresses := ListenAddresses previousService,
                       IPAddress := IPAddress previousService,
                       hasNetstatInfo := hasNetstatInfo previousService\<rparr>
                else service
            | None \<Rightarrow> service)
     in writeBack (servicesMap(key \<mapsto> service')) r)"

record Discovery =
  servicesMap :: "nameContainer \<rightharpoonup> Service"

datatype discoveryError = DiscoveryError string

text \<open>
  \<open>Discovery.updateDiscovery\<close>. The answer of the dynamic discoverer is an argument: an
  error, or the list of observed services.
\<close>

definition updateDiscovery :: "Discovery \<Rightarrow> discoveryError + Service list \<Rightarrow> discoveryError + Discovery" where
  "updateDiscovery d answer =
    (case answer of
       Inl err \<Rightarrow> Inl err
     | Inr r \<Rightarrow> Inr (d\<lparr>servicesMap := writeBack (inactiveCopy (servicesMap d)) r\<rparr>))"

text \<open>What the second loop writes for an observed service, given the entry found under its key.\<close>

definition carried :: "Service option \<Rightarrow> Service \<Rightarrow> Service" where
  "carried prev s =
    (case prev of
       Some p \<Rightarrow>
         if hasNetstatInfo p \<and> \<not> hasNetstatInfo s
         then s\<lparr>ListenAddresses := ListenAddresses p, IPAddress := IPAddress p,
                hasNetstatInfo := hasNetstatInfo p\<rparr>
         else s
     | None \<Rightarrow> s)"

text \<open>
  Every observed service of the list with the key of \<open>s\<close> is \<open>s\<close> itself.
\<close>

fun onlyUnderKey :: "Service \<Rightarrow> Service list \<Rightarrow> bool" where
  "onlyUnderKey s [] = True"
| "onlyUnderKey s (x # xs) = ((keyOf x \<noteq> keyOf s \<or> x = s) \<and> onlyUnderKey s xs)"

section \<open>Metric registry: pushed points\<close>

definition pushedPointsCleanupInterval :: Duration where
  "pushedPointsCleanupInterval = 5 * Minute"

text \<open>
  The part of \<open>Registry\<close> that holds the pushed points. The two Go maps are association
  lists whose order stands for the order of a \<open>range\<close> loop; a Go map holds a key once, so
  the keys of each list are distinct. The type of a point, \<open>types.MetricPoint\<close>, and the
  function \<open>types.LabelsToText\<close> are declared in package \<open>types\<close>, which is not among the
  sources: the point is a type parameter and the text of its label set is the parameter
  \<open>LabelsToText\<close> of the functions below. \<open>forwarded\<close> is \<open>None\<close> when the field
  \<open>PushPoint\<close> is nil, and else the calls made on that sink, in order.
\<close>

record 'p Registry =
  pushedPoints :: "(string \<times> 'p) list"
  pushedPointsExpiration :: "(string \<times> Time) list"
  lastPushedPointsCleanup :: Time
  forwarded :: "'p list list option"

text \<open>The first loop of \<open>pushPoint\<close>: every point and the deadline go under the key of the point.\<close>

fun storePoints ::
  "('p \<Rightarrow> string) \<Rightarrow> Time \<Rightarrow> 'p list \<Rightarrow> (string \<times> 'p) list \<times> (string \<times> Time) list
    \<Rightarrow> (string \<times> 'p) list \<times> (string \<times> Time) list" where
  "storePoints LabelsToText deadline [] (pp, pe) = (pp, pe)"
| "storePoints LabelsToText deadline (point # points) (pp, pe) =
    storePoints LabelsToText deadline points
      (AList.update (LabelsToText point) point pp, AList.update (LabelsToText point) deadline pe)"

text \<open>The keys whose expiration lies before \<open>now\<close>, and a list without some keys.\<close>

definition expiredKeys :: "Time \<Rightarrow> (string \<times> Time) list \<Rightarrow> string list" where
  "expiredKeys now pe = map fst (filter (\<lambda>(key, expiration). After now expiration) pe)"

definition without :: "string list \<Rightarrow> (string \<times> 'v) list \<Rightarrow> (string \<times> 'v) list" where
  "without gone al = filter (\<lambda>(key, v). key \<notin> set gone) al"

text \<open>\<open>Registry.pushPoint\<close>, with the clock reading \<open>now\<close>.\<close>

definition pushPoint ::
  "('p \<Rightarrow> string) \<Rightarrow> 'p Registry \<Rightarrow> 'p list \<Rightarrow> Duration \<Rightarrow> Time \<Rightarrow> 'p Registry" where
  "pushPoint LabelsToText r points ttl now =
    (let deadline = Add now ttl;
         (pp, pe) = storePoints LabelsToText deadline points
                      (pushedPoints r, pushedPointsExpiration r);
         r1 = r\<lparr>pushedPoints := pp, pushedPointsExpiration := pe\<rparr>;
         r2 = (if Sub now (lastPushedPointsCleanup r1) > pushedPointsCleanupInterval
               then r1\<lparr>lastPushedPointsCleanup := now,
                      pushedPoints := without (expiredKeys now pe) pp,
                      pushedPointsExpiration := without (expiredKeys now pe) pe\<rparr>
               else r1)
     in case forwarded r2 of
          None \<Rightarrow> r2
        | Some calls \<Rightarrow> r2\<lparr>forwarded := Some (calls @ [points])\<rparr>)"

text \<open>The expiration read from the map: the zero instant for an absent key.\<close>

definition expirationOf :: "(string \<times> Time) list \<Rightarrow> string \<Rightarrow> Time" where
  "expirationOf pe key = (case map_of pe key of None \<Rightarrow> zeroTime | Some e \<Rightarrow> e)"

text \<open>
  The loop of \<open>pushCollector.Collect\<close> over the stored points, in the order of the list. An
  entry whose expiration lies before \<open>now\<close> is deleted from both maps. Of any other point a
  metric is made by \<open>prometheus.MustNewConstMetric\<close> and sent on the channel. That function
  belongs to a library and panics when the point makes no valid metric: the parameter
  \<open>makesMetric\<close> tells whether it succeeds on a point. A panic ends the pass, and the entries
  not yet visited stay as they are. The result is the points map, the expiration map, the
  points whose metric was sent, and whether the pass ended in a panic.
\<close>

fun collectLoop ::
  "('p \<Rightarrow> bool) \<Rightarrow> Time \<Rightarrow> (string \<times> 'p) list \<Rightarrow> (string \<times> Time) list
    \<Rightarrow> (string \<times> 'p) list \<times> (string \<times> Time) list \<times> 'p list \<times> bool" where
  "collectLoop makesMetric now [] pe = ([], pe, [], False)"
| "collectLoop makesMetric now ((key, p) # rest) pe =
    (if After now (expirationOf pe key)
     then collectLoop makesMetric now rest (AList.delete key pe)
     else if \<not> makesMetric p then ((key, p) # rest, pe, [], True)
     else (case collectLoop makesMetric now rest pe of
             (kept, pe', sent, panicked) \<Rightarrow> ((key, p) # kept, pe', p # sent, panicked)))"

text \<open>
  \<open>pushCollector.Collect\<close>, which \<open>Gather\<close> runs through the registry of pushed points:
  the new state, the points whose metric was sent on the channel, and whether the pass ended
  in a panic.
\<close>

definition pushCollector_Collect ::
  "('p \<Rightarrow> bool) \<Rightarrow> 'p Registry \<Rightarrow> Time \<Rightarrow> 'p Registry \<times> 'p list \<times> bool" where
  "pushCollector_Collect makesMetric c now =
    (case collectLoop makesMetric now (pushedPoints c) (pushedPointsExpiration c) of
       (kept, pe', sent, panicked) \<Rightarrow>
         (c\<lparr>lastPushedPointsCleanup := now, pushedPoints := kept,
            pushedPointsExpiration := pe'\<rparr>, sent, panicked))"


definition emptyRegistry :: "'p Registry" where
  "emptyRegistry = \<lparr>pushedPoints = [], pushedPointsExpiration = [],
     lastPushedPointsCleanup = zeroTime, forwarded = None\<rparr>"


section \<open>Synchronizer: disablement\<close>

text \<open>
  Modelled from the spec: \<open>types.DisableReason\<close> is declared in package \<open>types\<close>, which
  is not among the sources; the spec lists the reasons.
\<close>

datatype DisableReason = DisableTooManyErrors | DisableDuplicatedAgent | DisableAgentTooOld
  | DisableAuthenticationError | DisableMaintenance

record Synchronizer =
  disabledUntil :: Time
  disableReason :: DisableReason

definition disable :: "Synchronizer \<Rightarrow> Time \<Rightarrow> DisableReason \<Rightarrow> bool \<Rightarrow> Synchronizer" where
  "disable s until reason force =
    (if force \<or> Before (disabledUntil s) until
     then s\<lparr>disabledUntil := until, disableReason := reason\<rparr> else s)"

definition Disable :: "Synchronizer \<Rightarrow> Time \<Rightarrow> DisableReason \<Rightarrow> Synchronizer" where
  "Disable s until reason = disable s until reason True"

definition getDisabledUntil :: "Synchronizer \<Rightarrow> Time \<times> DisableReason" where
  "getDisabledUntil s = (disabledUntil s, disableReason s)"

section \<open>Synchronizer: password generation\<close>

definition letters :: string where
  "letters = ''abcdefghjkmnpqrstuvwxyzABCDEFGHJKLMNPQRSTUVWXYZ23456789''"

text \<open>
  The random sources are outside the program. \<open>cryptoInt env i\<close> is what the call of
  \<open>cryptoRand.Int\<close> in iteration \<open>i\<close> of the loop returns: the \<open>*big.Int\<close> (\<open>None\<close> for a nil
  pointer) and whether the error is non-nil; \<open>randIntn env i\<close> is what \<open>rand.Intn\<close> returns
  when it is called in that iteration. The function returns its result together with the
  calls it made on other packages, in order.
\<close>

record entropy =
  cryptoInt :: "nat \<Rightarrow> int option \<times> bool"
  randIntn :: "nat \<Rightarrow> int"

datatype panic = NegativeLength | NilDereference | IndexOutOfRange

datatype call = CryptoRandInt | MathRandIntn | LoggerPrintf string

text \<open>
  The loop of \<open>generatePassword\<close> from iteration \<open>i\<close> on, with \<open>k\<close> iterations left.
  \<open>bigN.Int64()\<close> is evaluated before the error is tested, and reads its receiver.
\<close>

fun fillPassword :: "entropy \<Rightarrow> nat \<Rightarrow> nat \<Rightarrow> (panic + string) \<times> call list" where
  "fillPassword env i 0 = (Inr [], [])"
| "fillPassword env i (Suc k) =
    (case cryptoInt env i of
       (None, err) \<Rightarrow> (Inl NilDereference, [CryptoRandInt])
     | (Some bigN, err) \<Rightarrow>
         (let n = (if err then randIntn env i else bigN);
              calls = (if err then [CryptoRandInt, MathRandIntn] else [CryptoRandInt])
          in if 0 \<le> n \<and> n < int (length letters)
             then (case fillPassword env (Suc i) k of
                     (Inl p, cs) \<Rightarrow> (Inl p, calls @ cs)
                   | (Inr rest, cs) \<Rightarrow> (Inr (letters ! nat n # rest), calls @ cs))
             else (Inl IndexOutOfRange, calls)))"

definition generatePassword :: "entropy \<Rightarrow> int \<Rightarrow> (panic + string) \<times> call list" where
  "generatePassword env len =
    (if len < 0 then (Inl NegativeLength, []) else fillPassword env 0 (nat len))"

text \<open>
  The number that the cryptographic draw of iteration \<open>i\<close> returns (0 stands in for a nil
  pointer, which has none).
\<close>

definition drawn :: "entropy \<Rightarrow> nat \<Rightarrow> int" where
  "drawn env i = (case fst (cryptoInt env i) of Some bigN \<Rightarrow> bigN | None \<Rightarrow> 0)"

text \<open>
  Every cryptographic draw of the iterations \<open>i\<close> to \<open>i + k - 1\<close> succeeds: it returns no
  error, and a number that is not negative and below the length of the alphabet, which is
  the bound that \<open>generatePassword\<close> passes to \<open>cryptoRand.Int\<close>.
\<close>

fun drawsSucceed :: "entropy \<Rightarrow> nat \<Rightarrow> nat \<Rightarrow> bool" where
  "drawsSucceed env i 0 = True"
| "drawsSucceed env i (Suc k) =
    (fst (cryptoInt env i) \<noteq> None \<and> snd (cryptoInt env i) = False
     \<and> 0 \<le> drawn env i \<and> drawn env i < int (length letters)
     \<and> drawsSucceed env (Suc i) k)"

section \<open>Netstat inventory: listen addresses\<close>

record listenAddress =
  network :: string
  address :: string
  port :: int

text \<open>
  The functions of the Go library that \<open>addAddress\<close> relies on, modelled from the
  library's documentation: \<open>fmt.Sprintf\<close> with the verb \<open>%d\<close>, \<open>strconv.ParseInt\<close> in base 10
  for a 64-bit \<open>int\<close>, and \<open>net.SplitHostPort\<close>.
\<close>

definition digitChar :: "nat \<Rightarrow> char" where
  "digitChar d = ''0123456789'' ! d"

fun digitsOf :: "nat \<Rightarrow> string" where
  "digitsOf n = (if n < 10 then [digitChar n] else digitsOf (n div 10) @ [digitChar (n mod 10)])"

declare digitsOf.simps [simp del]

definition itoa :: "int \<Rightarrow> string" where
  "itoa n = (if n < 0 then CHR ''-'' # digitsOf (nat (- n)) else digitsOf (nat n))"

text \<open>\<open>bytealg.IndexByteString\<close>: the first position of a byte in a string.\<close>

definition indexByte :: "string \<Rightarrow> char \<Rightarrow> nat option" where
  "indexByte s c = (if c \<in> set s then Some (length (takeWhile (\<lambda>x. x \<noteq> c) s)) else None)"

text \<open>The value of a decimal digit: its position among the digits.\<close>

definition digitVal :: "char \<Rightarrow> nat option" where
  "digitVal c = indexByte ''0123456789'' c"

fun parseDigits :: "nat \<Rightarrow> string \<Rightarrow> nat option" where
  "parseDigits acc [] = Some acc"
| "parseDigits acc (c # cs) =
    (case digitVal c of None \<Rightarrow> None | Some d \<Rightarrow> parseDigits (acc * 10 + d) cs)"

datatype numError = ErrSyntax | ErrRange

definition minInt64 :: int where
  "minInt64 = - (2 ^ 63)"

definition maxInt64 :: int where
  "maxInt64 = 2 ^ 63 - 1"

definition ParseInt :: "string \<Rightarrow> numError + int" where
  "ParseInt s =
    (case s of
       [] \<Rightarrow> Inl ErrSyntax
     | c # cs \<Rightarrow>
         (let neg = (c = CHR ''-'');
              ds = (if c = CHR ''-'' \<or> c = CHR ''+'' then cs else s)
          in if ds = [] then Inl ErrSyntax
             else (case parseDigits 0 ds of
                     None \<Rightarrow> Inl ErrSyntax
                   | Some n \<Rightarrow>
                       (let v = (if neg then - int n else int n)
                        in if v < minInt64 \<or> maxInt64 < v then Inl ErrRange else Inr v))))"

text \<open>The last position of a byte in a string.\<close>

definition lastIndex :: "char \<Rightarrow> string \<Rightarrow> nat option" where
  "lastIndex c s =
    (if c \<in> set s then Some (length s - 1 - length (takeWhile (\<lambda>x. x \<noteq> c) (rev s))) else None)"

datatype addrError = MissingPort | TooManyColons | MissingBracket | UnexpectedOpen
  | UnexpectedClose

definition SplitHostPort :: "string \<Rightarrow> addrError + string \<times> string" where
  "SplitHostPort hostport =
    (case lastIndex CHR '':'' hostport of
       None \<Rightarrow> Inl MissingPort
     | Some i \<Rightarrow>
         (case (if hd hostport = CHR ''[''
                then (case indexByte hostport CHR '']'' of
                        None \<Rightarrow> Inl MissingBracket
                      | Some e \<Rightarrow>
                          if e + 1 = length hostport then Inl MissingPort
                          else if e + 1 = i then Inr (take (e - 1) (drop 1 hostport), 1, e + 1)
                          else if hostport ! (e + 1) = CHR '':'' then Inl TooManyColons
                          else Inl MissingPort)
                else (if CHR '':'' \<in> set (take i hostport) then Inl TooManyColons
                      else Inr (take i hostport, 0, 0)))
          of
            Inl err \<Rightarrow> Inl err
          | Inr (host, j, k) \<Rightarrow>
              if CHR ''['' \<in> set (drop j hostport) then Inl UnexpectedOpen
              else if CHR '']'' \<in> set (drop k hostport) then Inl UnexpectedClose
              else Inr (host, drop (i + 1) hostport)))"

text \<open>The methods \<open>Network\<close> and \<open>String\<close> of a \<open>listenAddress\<close>.\<close>

definition Network :: "listenAddress \<Rightarrow> string" where
  "Network l = network l"

definition String :: "listenAddress \<Rightarrow> string" where
  "String l = (if network l = ''unix'' then address l else address l @ '':'' @ itoa (port l))"

definition HasPrefix :: "string \<Rightarrow> string \<Rightarrow> bool" where
  "HasPrefix s pre = (take (length pre) s = pre)"

text \<open>
  The loop of \<open>addAddress\<close> over the addresses already present, together with the append
  that follows it when no duplicate was found. Every early return of the loop leaves the
  list as it is, so the entries before the current one are kept in each case.
\<close>

fun addLoop :: "listenAddress \<Rightarrow> listenAddress list \<Rightarrow> listenAddress list" where
  "addLoop newAddr [] = [newAddr]"
| "addLoop newAddr (v # rest) =
    (if Network v \<noteq> Network newAddr then v # addLoop newAddr rest
     else (case SplitHostPort (String v) of
             Inl err \<Rightarrow> v # rest
           | Inr (host, otherPortStr) \<Rightarrow>
               (case ParseInt otherPortStr of
                  Inl err \<Rightarrow> v # rest
                | Inr otherPort \<Rightarrow>
                    if otherPort = port newAddr
                    then (if HasPrefix (address newAddr) ''127.'' then newAddr # rest else v # rest)
                    else v # addLoop newAddr rest)))"

definition addAddress :: "listenAddress list \<Rightarrow> listenAddress \<Rightarrow> listenAddress list" where
  "addAddress addresses newAddr =
    (if network newAddr \<noteq> ''unix''
     then (if network newAddr = ''tcp6'' \<or> network newAddr = ''udp6''
           then (let a1 = (if address newAddr = ''::'' then newAddr\<lparr>address := ''0.0.0.0''\<rparr>
                           else newAddr);
                     a2 = (if address a1 = ''::1'' then a1\<lparr>address := ''127.0.0.1''\<rparr> else a1)
                 in if CHR '':'' \<in> set (address a2) then addresses
                    else addLoop (a2\<lparr>network := take 3 (network a2)\<rparr>) addresses)
           else addLoop newAddr addresses)
     else addresses @ [newAddr])"

text \<open>The addresses of one PID after a sequence of insertions.\<close>

definition insertAll :: "listenAddress list \<Rightarrow> listenAddress list" where
  "insertAll news = foldl addAddress [] news"

text \<open>
  The port that the loop reads back from an address already present: \<open>None\<close> when
  \<open>net.SplitHostPort\<close> or \<open>strconv.ParseInt\<close> fails.
\<close>

definition parsedPort :: "listenAddress \<Rightarrow> int option" where
  "parsedPort v =
    (case SplitHostPort (String v) of
       Inl err \<Rightarrow> None
     | Inr (host, otherPortStr) \<Rightarrow>
         (case ParseInt otherPortStr of Inl err \<Rightarrow> None | Inr otherPort \<Rightarrow> Some otherPort))"

text \<open>The projection of IPv6 addresses at the head of \<open>addAddress\<close>; \<open>None\<close>: dropped.\<close>

definition projectIPv6 :: "listenAddress \<Rightarrow> listenAddress option" where
  "projectIPv6 newAddr =
    (if network newAddr = ''tcp6'' \<or> network newAddr = ''udp6''
     then (let a1 = (if address newAddr = ''::'' then newAddr\<lparr>address := ''0.0.0.0''\<rparr>
                     else newAddr);
               a2 = (if address a1 = ''::1'' then a1\<lparr>address := ''127.0.0.1''\<rparr> else a1)
           in if CHR '':'' \<in> set (address a2) then None
              else Some (a2\<lparr>network := take 3 (network a2)\<rparr>))
     else Some newAddr)"

text \<open>Network and port of an address.\<close>

definition keyNP :: "listenAddress \<Rightarrow> string \<times> int" where
  "keyNP a = (network a, port a)"

text \<open>No two addresses other than unix sockets share network and port.\<close>

definition uniquePorts :: "listenAddress list \<Rightarrow> bool" where
  "uniquePorts as = distinct (map keyNP (filter (\<lambda>a. network a \<noteq> ''unix'') as))"

text \<open>
  Every address other than a unix socket is an IPv4 address with a port of 64 bits: its
  text has no colon and no bracket.
\<close>

fun plainAddresses :: "listenAddress list \<Rightarrow> bool" where
  "plainAddresses [] = True"
| "plainAddresses (v # rest) =
    ((network v = ''unix'' \<or>
        (CHR '':'' \<notin> set (address v) \<and> CHR ''['' \<notin> set (address v) \<and> CHR '']'' \<notin> set (address v)
         \<and> minInt64 \<le> port v \<and> port v \<le> maxInt64))
     \<and> plainAddresses rest)"

section \<open>Concrete inputs\<close>

definition getNothing :: "string \<Rightarrow> jsonState list \<times> bool" where
  "getNothing key = ([], False)"

definition cpuThreshold :: Threshold where
  "cpuThreshold = \<lparr>LowCritical = NaN, LowWarning = NaN, HighWarning = Finite 80,
     HighCritical = Finite 90\<rparr>"

definition crossedThreshold :: Threshold where
  "crossedThreshold = \<lparr>LowCritical = NaN, LowWarning = Finite 10, HighWarning = NaN,
     HighCritical = Finite 5\<rparr>"

definition startTime :: Time where
  "startTime = 1000 * Second"

definition cpuKey :: MetricNameItem where
  "cpuKey = (''cpu_used'', [])"

definition diskKey :: MetricNameItem where
  "diskKey = (''disk_used_perc'', ''/home'')"

definition pendingUpdates :: "(Status \<times> Duration \<times> Time \<times> Time) list" where
  "pendingUpdates = [(StatusOk, 300 * Second, startTime, startTime),
     (StatusCritical, 300 * Second, startTime, startTime)]"

definition firingUpdates :: "(Status \<times> Duration \<times> Time \<times> Time) list" where
  "firingUpdates = [(StatusCritical, 300 * Second, startTime, startTime),
     (StatusCritical, 300 * Second, startTime + 310 * Second, startTime + 310 * Second)]"

definition firingState :: statusState where
  "firingState = \<lparr>CurrentStatus = StatusCritical, CriticalSince = startTime,
     WarningSince = startTime, LastUpdate = startTime + 310 * Second\<rparr>"

definition staleState :: statusState where
  "staleState = \<lparr>CurrentStatus = StatusOk, CriticalSince = zeroTime, WarningSince = zeroTime,
     LastUpdate = startTime\<rparr>"

definition getFailing :: "string \<Rightarrow> jsonState list \<times> bool" where
  "getFailing key = ([(cpuKey, firingState)], True)"

definition getStored :: "string \<Rightarrow> jsonState list \<times> bool" where
  "getStored key = ([(cpuKey, firingState)], False)"

definition loadedRegistry :: ThresholdRegistry where
  "loadedRegistry = \<lparr>states = [(cpuKey, firingState), (diskKey, staleState)],
     defaultSoftPeriod = 300 * Second, softPeriods = Map.empty, sets = []\<rparr>"

definition memcachedSeen :: Service where
  "memcachedSeen = \<lparr>Name = ''memcached'', ContainerID = [],
     ListenAddresses = [(''tcp'', ''127.0.0.1:11211'')], IPAddress = ''127.0.0.1'',
     ExePath = ''/usr/bin/memcached'', Active = True, hasNetstatInfo = True\<rparr>"

definition memcachedBlind :: Service where
  "memcachedBlind = \<lparr>Name = ''memcached'', ContainerID = [],
     ListenAddresses = [(''tcp'', ''127.0.0.1:11211'')], IPAddress = ''10.0.0.5'',
     ExePath = ''/usr/bin/memcached'', Active = True, hasNetstatInfo = False\<rparr>"

definition redisSeen :: Service where
  "redisSeen = \<lparr>Name = ''redis'', ContainerID = ''5b8f83'',
     ListenAddresses = [(''tcp'', ''172.17.0.49:6379'')], IPAddress = ''172.17.0.49'',
     ExePath = [], Active = True, hasNetstatInfo = True\<rparr>"

definition cycleN :: Discovery where
  "cycleN = \<lparr>servicesMap = [keyOf memcachedSeen \<mapsto> memcachedSeen]\<rparr>"

definition cpuPoint :: "string \<times> int" where
  "cpuPoint = (''cpu_used'', 42)"


definition hasName :: "string \<times> int \<Rightarrow> bool" where
  "hasName p = (fst p \<noteq> [])"


definition disabledLong :: Synchronizer where
  "disabledLong = \<lparr>disabledUntil = startTime + 900 * Second, disableReason = DisableDuplicatedAgent\<rparr>"

definition failingEntropy :: entropy where
  "failingEntropy = \<lparr>cryptoInt = (\<lambda>i. (None, True)), randIntn = (\<lambda>i. 0)\<rparr>"

definition lastLetterEntropy :: entropy where
  "lastLetterEntropy = \<lparr>cryptoInt = (\<lambda>i. (Some 54, False)), randIntn = (\<lambda>i. 0)\<rparr>"

definition unixA :: listenAddress where
  "unixA = \<lparr>network = ''unix'', address = ''/run/a.sock'', port = 0\<rparr>"

definition unixB :: listenAddress where
  "unixB = \<lparr>network = ''unix'', address = ''/run/b.sock'', port = 0\<rparr>"

definition tcpAny80 :: listenAddress where
  "tcpAny80 = \<lparr>network = ''tcp'', address = ''0.0.0.0'', port = 80\<rparr>"

definition tcp6Loop80 :: listenAddress where
  "tcp6Loop80 = \<lparr>network = ''tcp6'', address = ''::1'', port = 80\<rparr>"

definition tcpLoop80 :: listenAddress where
  "tcpLoop80 = \<lparr>network = ''tcp'', address = ''127.0.0.1'', port = 80\<rparr>"

section \<open>Properties of the soft-period state machine\<close>

lemma Sub_same [simp]: "Sub t t = 0"
  by (simp add: Sub_def minDuration_def maxDuration_def)

lemma Sub_ge_iff: "minDuration < p \<Longrightarrow> p \<le> maxDuration \<Longrightarrow> (p \<le> Sub t u) = (p \<le> t - u)"
  by (auto simp: Sub_def)

lemma period_bounds: "minDuration < 300 * Second" "300 * Second \<le> maxDuration"
  by (simp_all add: minDuration_def maxDuration_def Second_def)

lemma period_facts:
  "300 * Second \<noteq> 0" "\<not> 300 * Second \<le> 0" "Second \<noteq> 0" "\<not> Second \<le> 0" "0 < Second"
  by (simp_all add: Second_def)

lemmas upd_simps = Update_def Let_def zeroTime_def IsZero_def After_def
  Sub_ge_iff [OF period_bounds] period_facts

lemma addPoint_unfold:
  "addPointWithThreshold r v th key now wall =
    (r\<lparr>states := AList.update key
        (Update (lookupState r key) (fst (Threshold_CurrentStatus th v)) (periodOf r key) now wall)
        (states r)\<rparr>,
     CurrentStatus
        (Update (lookupState r key) (fst (Threshold_CurrentStatus th v)) (periodOf r key) now wall))"
  by (simp add: addPointWithThreshold_def periodOf_def split_beta Let_def)

lemma lookupState_update [simp]:
  "lookupState (r\<lparr>states := AList.update key s (states r)\<rparr>) key = s"
  by (simp add: lookupState_def update_conv')

lemma periodOf_states [simp]: "periodOf (r\<lparr>states := x\<rparr>) key = periodOf r key"
  by (simp add: periodOf_def split: option.splits)

lemma pushStream_emitted:
  "pushStream r th key ps =
     emitted (lookupState r key) (periodOf r key)
       (map (\<lambda>(v, now). (fst (Threshold_CurrentStatus th v), now)) ps)"
proof (induction ps arbitrary: r)
  case Nil
  show ?case by simp
next
  case (Cons p ps)
  obtain v now where p: "p = (v, now)" by (cases p)
  show ?case
    by (simp add: p addPoint_unfold Cons.IH)
qed

lemma step_unset_ok:
  "Update zeroState StatusOk (300 * Second) t0 w =
     \<lparr>CurrentStatus = StatusOk, CriticalSince = 0, WarningSince = 0, LastUpdate = w\<rparr>"
  by (simp add: upd_simps zeroState_def)

lemma step_unset_critical:
  "0 < t0 \<Longrightarrow> Update zeroState StatusCritical (300 * Second) t0 w =
     \<lparr>CurrentStatus = StatusCritical, CriticalSince = t0, WarningSince = t0, LastUpdate = w\<rparr>"
  by (simp add: upd_simps zeroState_def)

lemma step_ok_critical:
  "0 < t0 \<Longrightarrow>
   Update \<lparr>CurrentStatus = StatusOk, CriticalSince = 0, WarningSince = 0, LastUpdate = l\<rparr>
      StatusCritical (300 * Second) t0 w =
     \<lparr>CurrentStatus = StatusOk, CriticalSince = t0, WarningSince = t0, LastUpdate = w\<rparr>"
  by (simp add: upd_simps)

lemma step_pending_critical:
  "0 < t0 \<Longrightarrow> 0 \<le> d \<Longrightarrow>
   Update \<lparr>CurrentStatus = c, CriticalSince = t0, WarningSince = t0, LastUpdate = l\<rparr>
      StatusCritical (300 * Second) (t0 + d) w =
     \<lparr>CurrentStatus = (if 300 * Second \<le> d then StatusCritical
                        else if c = StatusUnset then StatusCritical else c),
      CriticalSince = t0, WarningSince = t0, LastUpdate = w\<rparr>"
  by (simp add: upd_simps)

lemma step_critical_warning:
  "0 < t0 \<Longrightarrow>
   Update \<lparr>CurrentStatus = StatusCritical, CriticalSince = t0, WarningSince = t0, LastUpdate = l\<rparr>
      StatusWarning (300 * Second) t0 w =
     \<lparr>CurrentStatus = StatusWarning, CriticalSince = 0, WarningSince = t0, LastUpdate = w\<rparr>"
  by (simp add: upd_simps)

lemma duration_facts:
  "0 \<le> 150 * Second" "0 \<le> 310 * Second" "\<not> 300 * Second \<le> 150 * Second"
  "300 * Second \<le> 310 * Second" "0 < startTime"
  by (simp_all add: Second_def startTime_def)

lemma fresh_streams:
  assumes t0: "0 < t0" and l: "lookupState r key = zeroState" and p: "periodOf r key = 300 * Second"
    and raw: "fst (Threshold_CurrentStatus th vok) = StatusOk"
      "fst (Threshold_CurrentStatus th vcrit) = StatusCritical"
      "fst (Threshold_CurrentStatus th vwarn) = StatusWarning"
  shows "pushStream r th key
           [(vok, t0), (vcrit, t0), (vcrit, t0 + 150 * Second), (vcrit, t0 + 310 * Second)]
           = [StatusOk, StatusOk, StatusOk, StatusCritical]"
    and "pushStream r th key [(vcrit, t0), (vwarn, t0)] = [StatusCritical, StatusWarning]"
  using raw duration_facts
  by (simp_all add: pushStream_emitted l p step_unset_ok step_unset_critical [OF t0]
      step_ok_critical [OF t0] step_pending_critical [OF t0] step_critical_warning [OF t0])

lemma cpuThreshold_raw:
  "fst (Threshold_CurrentStatus cpuThreshold (Finite 50)) = StatusOk"
  "fst (Threshold_CurrentStatus cpuThreshold (Finite 95)) = StatusCritical"
  "fst (Threshold_CurrentStatus cpuThreshold (Finite 85)) = StatusWarning"
  by (simp_all add: Threshold_CurrentStatus_def cpuThreshold_def IsNaN_def flt_greater_def)

lemma New_getNothing:
  "map_of (states (New getNothing)) key = None"
  "softPeriods (New getNothing) name = None"
  "defaultSoftPeriod (New getNothing) = 300 * Second"
  "lookupState (New getNothing) key = zeroState"
  "periodOf (New getNothing) key = 300 * Second"
  by (simp_all add: New_def getNothing_def lookupState_def periodOf_def)

text \<open>
  C1 (as amended). On a key the registry has no state for, with the default soft period of
  300 s, the raw statuses ok, critical, critical, critical at the instants \<open>t0\<close>, \<open>t0\<close>,
  \<open>t0 + 150 s\<close>, \<open>t0 + 310 s\<close> are emitted as ok, ok, ok, critical. The raw statuses
  critical, warning at one instant are emitted as critical, warning: a state that was never
  updated takes the first raw status at once.
\<close>

theorem C1_soft_period_streams:
  assumes "0 < t0" and "map_of (states r) key = None" and "softPeriods r (fst key) = None"
    and "defaultSoftPeriod r = 300 * Second"
    and "fst (Threshold_CurrentStatus th vok) = StatusOk"
    and "fst (Threshold_CurrentStatus th vcrit) = StatusCritical"
    and "fst (Threshold_CurrentStatus th vwarn) = StatusWarning"
  shows "pushStream r th key
           [(vok, t0), (vcrit, t0), (vcrit, t0 + 150 * Second), (vcrit, t0 + 310 * Second)]
           = [StatusOk, StatusOk, StatusOk, StatusCritical]
       \<and> pushStream r th key [(vcrit, t0), (vwarn, t0)] = [StatusCritical, StatusWarning]"
proof -
  have l: "lookupState r key = zeroState"
    using assms(2) by (simp add: lookupState_def)
  have p: "periodOf r key = 300 * Second"
    using assms(3,4) by (simp add: periodOf_def)
  show ?thesis
    using fresh_streams [OF assms(1) l p assms(5-7)] by simp
qed

theorem C1_soft_period_streams_witness:
  "0 < startTime \<and> map_of (states (New getNothing)) cpuKey = None
   \<and> softPeriods (New getNothing) (fst cpuKey) = None
   \<and> defaultSoftPeriod (New getNothing) = 300 * Second
   \<and> fst (Threshold_CurrentStatus cpuThreshold (Finite 50)) = StatusOk
   \<and> fst (Threshold_CurrentStatus cpuThreshold (Finite 95)) = StatusCritical
   \<and> fst (Threshold_CurrentStatus cpuThreshold (Finite 85)) = StatusWarning
   \<and> pushStream (New getNothing) cpuThreshold cpuKey
        [(Finite 50, startTime), (Finite 95, startTime), (Finite 95, startTime + 150 * Second),
         (Finite 95, startTime + 310 * Second)]
        = [StatusOk, StatusOk, StatusOk, StatusCritical]
   \<and> pushStream (New getNothing) cpuThreshold cpuKey
        [(Finite 95, startTime), (Finite 85, startTime)] = [StatusCritical, StatusWarning]"
  using C1_soft_period_streams [OF duration_facts(5) New_getNothing(1) New_getNothing(2)
      New_getNothing(3) cpuThreshold_raw, of cpuKey]
    duration_facts(5) New_getNothing(1-3) cpuThreshold_raw
  by simp

text \<open>
  The claim as stated expects ok, warning for the raw statuses critical, warning on a fresh
  key; the first emitted status is critical.
\<close>

theorem C1_counterexample:
  "pushStream (New getNothing) cpuThreshold cpuKey
     [(Finite 95, startTime), (Finite 85, startTime)] \<noteq> [StatusOk, StatusWarning]"
  using fresh_streams(2) [OF duration_facts(5) New_getNothing(4) New_getNothing(5) cpuThreshold_raw,
      of cpuKey]
  by simp

lemma Update_CriticalSince:
  "CriticalSince (Update s st p now w) =
     (if st = StatusCritical
      then (if CriticalSince s = 0 \<or> now < CriticalSince s then now else CriticalSince s)
      else 0)"
  by (cases st) (simp_all add: Update_def Let_def zeroTime_def IsZero_def After_def)

lemma Update_WarningSince:
  "WarningSince (Update s st p now w) =
     (if st = StatusCritical \<or> st = StatusWarning
      then (if WarningSince s = 0 \<or> now < WarningSince s then now else WarningSince s)
      else 0)"
  by (cases st) (simp_all add: Update_def Let_def zeroTime_def IsZero_def After_def)

lemma Update_warning_not_critical:
  "0 \<le> p \<Longrightarrow> CurrentStatus (Update s StatusWarning p now w) \<noteq> StatusCritical"
  by (simp add: Update_def Let_def zeroTime_def IsZero_def After_def)

lemma sinceOrdered_Update: "sinceOrdered s \<Longrightarrow> sinceOrdered (Update s st p now w)"
  unfolding sinceOrdered_def Update_CriticalSince Update_WarningSince
  by auto

lemma Update_raw_critical:
  "sinceOrdered s \<Longrightarrow>
   WarningSince (Update s StatusCritical p now w) \<le> CriticalSince (Update s StatusCritical p now w)"
  unfolding sinceOrdered_def Update_CriticalSince Update_WarningSince
  by auto

lemma Update_current_critical:
  assumes "sinceOrdered s" "0 \<le> p" "CurrentStatus (Update s st p now w) = StatusCritical"
  shows "WarningSince (Update s st p now w) \<le> CriticalSince (Update s st p now w)"
proof (cases "st = StatusCritical")
  case True
  then show ?thesis using assms(1) Update_raw_critical by simp
next
  case False
  with assms(2,3) have "st \<noteq> StatusWarning"
    using Update_warning_not_critical by blast
  with False show ?thesis
    by (simp add: Update_CriticalSince Update_WarningSince)
qed

lemma updates_append: "updates s (us @ vs) = updates (updates s us) vs"
  by (induction s us rule: updates.induct) simp_all

lemma sinceOrdered_updates: "sinceOrdered s \<Longrightarrow> sinceOrdered (updates s us)"
  by (induction s us rule: updates.induct) (simp_all add: sinceOrdered_Update)

lemma periodsNonNegative_append:
  "periodsNonNegative (us @ vs) = (periodsNonNegative us \<and> periodsNonNegative vs)"
  by (induction us rule: periodsNonNegative.induct) simp_all

lemma sinceOrdered_zero: "sinceOrdered zeroState"
  by (simp add: sinceOrdered_def zeroState_def zeroTime_def)

lemma current_critical_updates:
  assumes "periodsNonNegative us" "CurrentStatus (updates zeroState us) = StatusCritical"
  shows "WarningSince (updates zeroState us) \<le> CriticalSince (updates zeroState us)"
proof (cases us rule: rev_cases)
  case Nil
  with assms(2) show ?thesis by (simp add: zeroState_def)
next
  case (snoc vs u)
  obtain st p now w where u: "u = (st, p, now, w)" by (cases u)
  have "0 \<le> p" using assms(1) by (simp add: snoc u periodsNonNegative_append)
  moreover have "sinceOrdered (updates zeroState vs)"
    by (rule sinceOrdered_updates [OF sinceOrdered_zero])
  ultimately show ?thesis
    using assms(2) Update_current_critical by (simp add: snoc u updates_append)
qed

lemma updates_pending:
  "updates zeroState pendingUpdates =
     \<lparr>CurrentStatus = StatusOk, CriticalSince = startTime, WarningSince = startTime,
      LastUpdate = startTime\<rparr>"
  by (simp add: pendingUpdates_def step_unset_ok step_ok_critical [OF duration_facts(5)])

lemma updates_firing: "updates zeroState firingUpdates = firingState"
  using duration_facts
  by (simp add: firingUpdates_def firingState_def step_unset_critical [OF duration_facts(5)]
      step_pending_critical [OF duration_facts(5)])

text \<open>
  C3 (as amended). For every state reached from the initial state by updates whose soft
  periods are not negative: if the current status is critical then \<open>WarningSince\<close> is not
  later than \<open>CriticalSince\<close>; whenever \<open>CriticalSince\<close> is set, \<open>WarningSince\<close> is set and
  not later. The parts of the claim about ok and warning hold for the raw status of the last
  update, not for the current status: after a raw ok both fields are zero, after a raw
  warning \<open>CriticalSince\<close> is zero, after a raw critical \<open>WarningSince\<close> is not later than
  \<open>CriticalSince\<close>.
\<close>

theorem C3_reachable_states:
  assumes "periodsNonNegative us"
  shows "(CurrentStatus (updates zeroState us) = StatusCritical \<longrightarrow>
          WarningSince (updates zeroState us) \<le> CriticalSince (updates zeroState us))
      \<and> (\<not> IsZero (CriticalSince (updates zeroState us)) \<longrightarrow>
          \<not> IsZero (WarningSince (updates zeroState us))
          \<and> WarningSince (updates zeroState us) \<le> CriticalSince (updates zeroState us))
      \<and> (\<forall>vs raw p now w. us = vs @ [(raw, p, now, w)] \<longrightarrow>
          (raw = StatusOk \<longrightarrow> IsZero (WarningSince (updates zeroState us))
            \<and> IsZero (CriticalSince (updates zeroState us)))
          \<and> (raw = StatusWarning \<longrightarrow> IsZero (CriticalSince (updates zeroState us)))
          \<and> (raw = StatusCritical \<longrightarrow>
              WarningSince (updates zeroState us) \<le> CriticalSince (updates zeroState us)))"
proof (intro conjI allI impI)
  assume "CurrentStatus (updates zeroState us) = StatusCritical"
  then show "WarningSince (updates zeroState us) \<le> CriticalSince (updates zeroState us)"
    using assms current_critical_updates by blast
next
  have so: "sinceOrdered (updates zeroState us)"
    by (rule sinceOrdered_updates [OF sinceOrdered_zero])
  assume nz: "\<not> IsZero (CriticalSince (updates zeroState us))"
  show "\<not> IsZero (WarningSince (updates zeroState us))"
    using so nz by (auto simp: sinceOrdered_def IsZero_def zeroTime_def)
  show "WarningSince (updates zeroState us) \<le> CriticalSince (updates zeroState us)"
    using so nz by (auto simp: sinceOrdered_def IsZero_def zeroTime_def)
next
  fix vs raw p now w
  assume us: "us = vs @ [(raw, p, now, w)]"
  have so: "sinceOrdered (updates zeroState vs)"
    by (rule sinceOrdered_updates [OF sinceOrdered_zero])
  { assume "raw = StatusOk"
    then show "IsZero (WarningSince (updates zeroState us))"
      "IsZero (CriticalSince (updates zeroState us))"
      by (simp_all add: us updates_append Update_WarningSince Update_CriticalSince
          IsZero_def zeroTime_def) }
  { assume "raw = StatusWarning"
    then show "IsZero (CriticalSince (updates zeroState us))"
      by (simp add: us updates_append Update_CriticalSince IsZero_def zeroTime_def) }
  { assume "raw = StatusCritical"
    then show "WarningSince (updates zeroState us) \<le> CriticalSince (updates zeroState us)"
      using Update_raw_critical [OF so] by (simp add: us updates_append) }
qed

theorem C3_reachable_states_witness:
  "periodsNonNegative firingUpdates
   \<and> CurrentStatus (updates zeroState firingUpdates) = StatusCritical
   \<and> WarningSince (updates zeroState firingUpdates) \<le> CriticalSince (updates zeroState firingUpdates)
   \<and> \<not> IsZero (WarningSince (updates zeroState firingUpdates))"
proof -
  have h: "periodsNonNegative firingUpdates"
    by (simp add: firingUpdates_def Second_def)
  have c: "CurrentStatus (updates zeroState firingUpdates) = StatusCritical"
    by (simp add: updates_firing firingState_def)
  have z: "\<not> IsZero (CriticalSince (updates zeroState firingUpdates))"
    using duration_facts(5) by (simp add: updates_firing firingState_def IsZero_def zeroTime_def)
  show ?thesis
    using C3_reachable_states [OF h] h c z by blast
qed

text \<open>
  The claim as stated: a current status ok forces both since-fields to zero. After the raw
  statuses ok, critical the current status is still ok while both fields are set.
\<close>

theorem C3_counterexample:
  "CurrentStatus (updates zeroState pendingUpdates) = StatusOk
   \<and> \<not> IsZero (CriticalSince (updates zeroState pendingUpdates))
   \<and> \<not> IsZero (WarningSince (updates zeroState pendingUpdates))"
  using duration_facts(5) by (simp add: updates_pending IsZero_def zeroTime_def)

section \<open>Properties of the raw status\<close>

lemma flt_less_NaN [simp]: "\<not> flt_less v NaN" "\<not> flt_less NaN v"
  by (cases v; simp)+

lemma flt_less_trans: "flt_less a b \<Longrightarrow> flt_less b c \<Longrightarrow> flt_less a c"
  by (cases a; cases b; cases c) simp_all

text \<open>
  C4 (as amended). The raw status is critical if the value is below the low critical limit;
  else warning if it is below the low warning limit; else critical if it is above the high
  critical limit; else warning if it is above the high warning limit; else ok. Unset limits
  never match. This is the rule of the claim for every value that is not both below the low
  warning limit and above the high critical limit, hence for every threshold whose high
  critical limit is not below its low warning limit.
\<close>

theorem C4_raw_status:
  "fst (Threshold_CurrentStatus t v) =
     (if flt_less v (LowCritical t) then StatusCritical
      else if flt_less v (LowWarning t) then StatusWarning
      else if flt_greater v (HighCritical t) then StatusCritical
      else if flt_greater v (HighWarning t) then StatusWarning
      else StatusOk)
   \<and> (\<not> (flt_less v (LowWarning t) \<and> flt_greater v (HighCritical t)) \<longrightarrow>
        fst (Threshold_CurrentStatus t v) = spec_raw_status t v)
   \<and> (\<not> flt_less (HighCritical t) (LowWarning t) \<longrightarrow>
        fst (Threshold_CurrentStatus t v) = spec_raw_status t v)"
proof -
  have a: "\<not> (flt_less v (LowWarning t) \<and> flt_greater v (HighCritical t)) \<longrightarrow>
        fst (Threshold_CurrentStatus t v) = spec_raw_status t v"
    by (auto simp: Threshold_CurrentStatus_def spec_raw_status_def IsNaN_def flt_greater_def)
  have "flt_less v (LowWarning t) \<and> flt_greater v (HighCritical t) \<longrightarrow>
        flt_less (HighCritical t) (LowWarning t)"
    using flt_less_trans by (auto simp: flt_greater_def)
  with a have b: "\<not> flt_less (HighCritical t) (LowWarning t) \<longrightarrow>
        fst (Threshold_CurrentStatus t v) = spec_raw_status t v"
    by blast
  have "fst (Threshold_CurrentStatus t v) =
     (if flt_less v (LowCritical t) then StatusCritical
      else if flt_less v (LowWarning t) then StatusWarning
      else if flt_greater v (HighCritical t) then StatusCritical
      else if flt_greater v (HighWarning t) then StatusWarning
      else StatusOk)"
    by (auto simp: Threshold_CurrentStatus_def IsNaN_def flt_greater_def)
  with a b show ?thesis by blast
qed

theorem C4_raw_status_witness:
  "\<not> (flt_less (Finite 95) (LowWarning cpuThreshold)
        \<and> flt_greater (Finite 95) (HighCritical cpuThreshold))
   \<and> fst (Threshold_CurrentStatus cpuThreshold (Finite 95)) = StatusCritical
   \<and> spec_raw_status cpuThreshold (Finite 95) = StatusCritical"
  using C4_raw_status [where v = "Finite 95" and t = cpuThreshold]
  by (auto simp: cpuThreshold_def flt_greater_def)

text \<open>
  The claim as stated: with a low warning limit of 10 and a high critical limit of 5 the
  value 7 is above the high critical limit, so the claimed rule says critical; the code
  tests the low warning limit first and returns warning.
\<close>

theorem C4_counterexample:
  "fst (Threshold_CurrentStatus crossedThreshold (Finite 7)) = StatusWarning
   \<and> spec_raw_status crossedThreshold (Finite 7) = StatusCritical"
  by (simp add: Threshold_CurrentStatus_def spec_raw_status_def crossedThreshold_def IsNaN_def
      flt_greater_def)

section \<open>Properties of the disablement\<close>

text \<open>
  C8. A call of \<open>disable\<close> that is not forced never moves the deadline earlier: the new
  deadline is the later of the old one and \<open>until\<close>.
\<close>

theorem C8_disable_monotonic:
  "\<not> force \<Longrightarrow>
   \<not> Before (disabledUntil (disable s until reason force)) (disabledUntil s)
   \<and> disabledUntil (disable s until reason force) = max (disabledUntil s) until"
  by (auto simp: disable_def Before_def)

theorem C8_disable_monotonic_witness:
  "\<not> False
   \<and> \<not> Before (disabledUntil (disable disabledLong (startTime + 60 * Second) DisableTooManyErrors False))
        (disabledUntil disabledLong)
   \<and> disabledUntil (disable disabledLong (startTime + 60 * Second) DisableTooManyErrors False)
        = startTime + 900 * Second"
  using C8_disable_monotonic [of False disabledLong "startTime + 60 * Second" DisableTooManyErrors]
  by (simp add: disabledLong_def Second_def Before_def)

text \<open>The exported \<open>Disable\<close> always forces: it sets the deadline and the reason it is given.\<close>

lemma Disable_sets_deadline:
  "getDisabledUntil (Disable s until reason) = (until, reason)"
  by (simp add: Disable_def disable_def getDisabledUntil_def)

section \<open>Properties of the construction of the threshold registry\<close>

lemma map_of_foldl_update:
  "map_of (foldl (\<lambda>m (k, v). AList.update k v m) acc xs) = map_of acc ++ map_of (rev xs)"
proof (induction xs arbitrary: acc)
  case Nil
  show ?case by simp
next
  case (Cons x xs)
  obtain k v where x: "x = (k, v)" by (cases x)
  show ?case
    by (auto simp: Cons.IH x update_conv' map_add_def fun_eq_iff split: option.splits)
qed

text \<open>
  C10. \<open>New\<close> copies the list read from the store into the states map only when \<open>Get\<close>
  returns an error; when \<open>Get\<close> succeeds the registry starts with no state at all.
\<close>

theorem C10_New_loads_only_on_error:
  "(\<not> snd (get statusCacheKey) \<longrightarrow> states (New get) = [])
   \<and> (snd (get statusCacheKey) \<longrightarrow>
        map_of (states (New get)) = map_of (rev (fst (get statusCacheKey))))"
  by (simp add: New_def split_beta Let_def map_of_foldl_update)

theorem C10_New_loads_only_on_error_witness:
  "\<not> snd (getStored statusCacheKey) \<and> states (New getStored) = []
   \<and> snd (getFailing statusCacheKey)
   \<and> map_of (states (New getFailing)) cpuKey = Some firingState"
  using C10_New_loads_only_on_error [of getStored] C10_New_loads_only_on_error [of getFailing]
  by (simp add: getStored_def getFailing_def)

section \<open>Properties of the discovery refresh\<close>

lemma writeBack_Cons:
  "writeBack m (x # r) = writeBack (m(keyOf x \<mapsto> carried (m (keyOf x)) x)) r"
  by (simp add: carried_def keyOf_def Let_def)

lemma carried_again: "carried (Some (carried prev s)) s = carried prev s"
  by (auto simp: carried_def split: option.splits)

lemma writeBack_written:
  "onlyUnderKey s r \<Longrightarrow> m (keyOf s) = Some (carried prev s) \<Longrightarrow>
   writeBack m r (keyOf s) = Some (carried prev s)"
proof (induction r arbitrary: m)
  case Nil
  then show ?case by simp
next
  case (Cons x r)
  show ?case
  proof (cases "keyOf x = keyOf s")
    case True
    with Cons.prems have "x = s" by simp
    with Cons show ?thesis
      by (simp add: writeBack_Cons carried_again del: writeBack.simps)
  next
    case False
    with Cons show ?thesis
      by (simp add: writeBack_Cons del: writeBack.simps)
  qed
qed

lemma writeBack_only:
  "s \<in> set r \<Longrightarrow> onlyUnderKey s r \<Longrightarrow>
   writeBack m r (keyOf s) = Some (carried (m (keyOf s)) s)"
proof (induction r arbitrary: m)
  case Nil
  then show ?case by simp
next
  case (Cons x r)
  show ?case
  proof (cases "keyOf x = keyOf s")
    case True
    with Cons.prems have x: "x = s" by simp
    have "onlyUnderKey s r" using Cons.prems by simp
    then show ?thesis
      using writeBack_written [of s r "m(keyOf s \<mapsto> carried (m (keyOf s)) s)" "m (keyOf s)"]
      by (simp add: writeBack_Cons x del: writeBack.simps)
  next
    case False
    with Cons.prems have "s \<in> set r" "onlyUnderKey s r" by auto
    with Cons.IH False show ?thesis
      by (simp add: writeBack_Cons del: writeBack.simps)
  qed
qed

lemma carried_inactive: "carried (inactiveCopy m k) s = carried (m k) s"
  by (cases "m k") (simp_all add: carried_def inactiveCopy_def)

text \<open>
  C2. Let \<open>s\<close> be an observed service that is the only one observed under its key
  \<open>(Name, ContainerID)\<close>. If the map held an entry \<open>p\<close> under that key with
  \<open>hasNetstatInfo\<close> set and \<open>s\<close> lacks netstat information, the refreshed map holds \<open>s\<close>
  with the listen addresses and the IP address of \<open>p\<close> and with the flag set. In every
  other case it holds \<open>s\<close> as the dynamic discoverer returned it.
\<close>

theorem C2_carry_over:
  assumes "s \<in> set r" and "onlyUnderKey s r"
  shows "\<exists>d'. updateDiscovery d (Inr r) = Inr d'
     \<and> (\<forall>p. servicesMap d (keyOf s) = Some p \<and> hasNetstatInfo p \<and> \<not> hasNetstatInfo s \<longrightarrow>
          servicesMap d' (keyOf s) = Some (s\<lparr>ListenAddresses := ListenAddresses p,
            IPAddress := IPAddress p, hasNetstatInfo := True\<rparr>))
     \<and> (\<not> (\<exists>p. servicesMap d (keyOf s) = Some p \<and> hasNetstatInfo p \<and> \<not> hasNetstatInfo s) \<longrightarrow>
          servicesMap d' (keyOf s) = Some s)"
proof -
  have "writeBack (inactiveCopy (servicesMap d)) r (keyOf s)
      = Some (carried (servicesMap d (keyOf s)) s)"
    using writeBack_only [OF assms] by (simp add: carried_inactive)
  then show ?thesis
    by (auto simp: updateDiscovery_def carried_def split: option.splits)
qed

theorem C2_carry_over_witness:
  "memcachedBlind \<in> set [memcachedBlind, redisSeen]
   \<and> onlyUnderKey memcachedBlind [memcachedBlind, redisSeen]
   \<and> redisSeen \<in> set [memcachedBlind, redisSeen]
   \<and> onlyUnderKey redisSeen [memcachedBlind, redisSeen]
   \<and> servicesMap cycleN (keyOf memcachedBlind) = Some memcachedSeen
   \<and> hasNetstatInfo memcachedSeen \<and> \<not> hasNetstatInfo memcachedBlind
   \<and> servicesMap cycleN (keyOf redisSeen) = None
   \<and> (\<exists>d'. updateDiscovery cycleN (Inr [memcachedBlind, redisSeen]) = Inr d'
        \<and> servicesMap d' (keyOf memcachedBlind)
            = Some (memcachedBlind\<lparr>ListenAddresses := [(''tcp'', ''127.0.0.1:11211'')],
                IPAddress := ''127.0.0.1'', hasNetstatInfo := True\<rparr>)
        \<and> servicesMap d' (keyOf redisSeen) = Some redisSeen)"
proof -
  have a: "memcachedBlind \<in> set [memcachedBlind, redisSeen]"
    "redisSeen \<in> set [memcachedBlind, redisSeen]"
    by simp_all
  have b: "onlyUnderKey memcachedBlind [memcachedBlind, redisSeen]"
    "onlyUnderKey redisSeen [memcachedBlind, redisSeen]"
    by (simp_all add: keyOf_def memcachedBlind_def redisSeen_def)
  have c: "servicesMap cycleN (keyOf memcachedBlind) = Some memcachedSeen"
    "hasNetstatInfo memcachedSeen" "\<not> hasNetstatInfo memcachedBlind"
    "servicesMap cycleN (keyOf redisSeen) = None"
    by (simp_all add: cycleN_def keyOf_def memcachedBlind_def memcachedSeen_def redisSeen_def)
  have d: "ListenAddresses memcachedSeen = [(''tcp'', ''127.0.0.1:11211'')]"
    "IPAddress memcachedSeen = ''127.0.0.1''"
    by (simp_all add: memcachedSeen_def)
  obtain d1 where d1: "updateDiscovery cycleN (Inr [memcachedBlind, redisSeen]) = Inr d1"
    and m: "servicesMap d1 (keyOf memcachedBlind)
      = Some (memcachedBlind\<lparr>ListenAddresses := ListenAddresses memcachedSeen,
          IPAddress := IPAddress memcachedSeen, hasNetstatInfo := True\<rparr>)"
    using C2_carry_over [OF a(1) b(1), of cycleN] c(1-3) by blast
  obtain d2 where d2: "updateDiscovery cycleN (Inr [memcachedBlind, redisSeen]) = Inr d2"
    and "\<not> (\<exists>p. servicesMap cycleN (keyOf redisSeen) = Some p \<and> hasNetstatInfo p
          \<and> \<not> hasNetstatInfo redisSeen) \<longrightarrow> servicesMap d2 (keyOf redisSeen) = Some redisSeen"
    using C2_carry_over [OF a(2) b(2), of cycleN] by blast
  then have "servicesMap d2 (keyOf redisSeen) = Some redisSeen"
    using c(4) by simp
  moreover have "d2 = d1"
    using d1 d2 by simp
  ultimately have "updateDiscovery cycleN (Inr [memcachedBlind, redisSeen]) = Inr d1
      \<and> servicesMap d1 (keyOf memcachedBlind)
          = Some (memcachedBlind\<lparr>ListenAddresses := [(''tcp'', ''127.0.0.1:11211'')],
              IPAddress := ''127.0.0.1'', hasNetstatInfo := True\<rparr>)
      \<and> servicesMap d1 (keyOf redisSeen) = Some redisSeen"
    using d1 m by (simp only: d)
  then show ?thesis
    using a b c by blast
qed

section \<open>Properties of the periodic save\<close>

lemma Sub_gt_60: "(60 * Minute < Sub t u) = (60 * Minute < t - u)"
proof -
  have "minDuration \<le> 60 * Minute" "60 * Minute < maxDuration"
    by (simp_all add: minDuration_def maxDuration_def Minute_def Second_def)
  then show ?thesis
    by (auto simp: Sub_def)
qed

lemma run_states:
  "states (run r save now) = filter (\<lambda>(k, v). now - LastUpdate v \<le> 60 * Minute) (states r)"
  by (simp add: run_def Let_def not_less Sub_gt_60)

lemma run_sets:
  "sets (run r save now) =
     (if save then (statusCacheKey, states (run r save now)) # sets r else sets r)"
  by (simp add: run_def Let_def)

lemma quiet_loop: "quietWakes lastSave ws \<Longrightarrow> sets (Run_loop r lastSave ws) = sets r"
proof (induction r lastSave ws rule: Run_loop.induct)
  case (1 r lastSave)
  show ?case by simp
next
  case (2 r lastSave now ws)
  then show ?case by simp
next
  case (3 r lastSave now err ws)
  then show ?case
    by (simp add: Sub_gt_60 run_sets Let_def)
qed

lemma minute_facts:
  "startTime + 6 * Minute - startTime \<le> 60 * Minute"
  "60 * Minute < startTime + 61 * Minute - startTime"
  "startTime + 61 * Minute - (startTime + 310 * Second) \<le> 60 * Minute"
  "\<not> startTime + 61 * Minute - startTime \<le> 60 * Minute"
  by (simp_all add: Minute_def Second_def)

lemma run_other_fields:
  "defaultSoftPeriod (run r save now) = defaultSoftPeriod r"
  "softPeriods (run r save now) = softPeriods r"
  by (simp_all add: run_def Let_def)

text \<open>
  C6 (as amended). Every pass of the loop, whether it saves or not, deletes the entries
  whose \<open>LastUpdate\<close> is more than 60 minutes old and keeps the others: so does a pass
  started by the cancellation of the context, a pass started by the timer more than 60
  minutes after the last save, and a pass started by the timer within 60 minutes of the
  last save. The first two hand the kept entries to the store under the fixed cache key; the
  third hands nothing to the store and leaves the time of the last save as it is, so as long
  as the timer wakes the loop within 60 minutes of the last save nothing is handed to the
  store.
\<close>

theorem C6_run_saves:
  "states (run r save now) = filter (\<lambda>(k, v). now - LastUpdate v \<le> 60 * Minute) (states r)
   \<and> sets (run r save now)
       = (if save then (statusCacheKey, states (run r save now)) # sets r else sets r)
   \<and> defaultSoftPeriod (run r save now) = defaultSoftPeriod r
   \<and> softPeriods (run r save now) = softPeriods r
   \<and> Run_loop r lastSave [] = r
   \<and> Run_loop r lastSave (Cancelled now # ws) = run r True now
   \<and> (60 * Minute < now - lastSave \<longrightarrow>
        Run_loop r lastSave (Timer now err # ws)
          = (if err then run r True now else Run_loop (run r True now) now ws))
   \<and> (now - lastSave \<le> 60 * Minute \<longrightarrow>
        Run_loop r lastSave (Timer now err # ws)
          = (if err then run r False now else Run_loop (run r False now) lastSave ws)
        \<and> states (Run_loop r lastSave [Timer now err])
          = filter (\<lambda>(k, v). now - LastUpdate v \<le> 60 * Minute) (states r)
        \<and> sets (Run_loop r lastSave [Timer now err]) = sets r)
   \<and> (quietWakes lastSave ws \<longrightarrow> sets (Run_loop r lastSave ws) = sets r)"
proof -
  have q: "now - lastSave \<le> 60 * Minute \<longrightarrow>
        Run_loop r lastSave (Timer now err # ws)
          = (if err then run r False now else Run_loop (run r False now) lastSave ws)
        \<and> states (Run_loop r lastSave [Timer now err])
          = filter (\<lambda>(k, v). now - LastUpdate v \<le> 60 * Minute) (states r)
        \<and> sets (Run_loop r lastSave [Timer now err]) = sets r"
    by (simp add: run_states run_sets Sub_gt_60 Let_def)
  have l: "60 * Minute < now - lastSave \<longrightarrow>
        Run_loop r lastSave (Timer now err # ws)
          = (if err then run r True now else Run_loop (run r True now) now ws)"
    by (simp add: Sub_gt_60 Let_def)
  show ?thesis
    using q l by (simp add: run_states run_sets run_other_fields quiet_loop)
qed

theorem C6_run_saves_witness:
  "quietWakes startTime [Timer (startTime + 6 * Minute) False]
   \<and> sets (Run_loop loadedRegistry startTime [Timer (startTime + 6 * Minute) False]) = []
   \<and> 60 * Minute < startTime + 61 * Minute - startTime
   \<and> sets (Run_loop loadedRegistry startTime [Timer (startTime + 61 * Minute) True])
       = [(statusCacheKey, [(cpuKey, firingState)])]
   \<and> states (Run_loop loadedRegistry startTime [Cancelled (startTime + 61 * Minute)])
       = [(cpuKey, firingState)]"
proof -
  have q: "quietWakes startTime [Timer (startTime + 6 * Minute) False]"
    using minute_facts(1) by simp
  have s: "sets loadedRegistry = []"
    "states loadedRegistry = [(cpuKey, firingState), (diskKey, staleState)]"
    by (simp_all add: loadedRegistry_def)
  have l: "LastUpdate firingState = startTime + 310 * Second" "LastUpdate staleState = startTime"
    by (simp_all add: firingState_def staleState_def)
  note c = C6_run_saves [where r = loadedRegistry and save = True
      and now = "startTime + 61 * Minute" and lastSave = startTime and ws = "[]" and err = True]
  show ?thesis
    using C6_run_saves [where r = loadedRegistry and save = True
        and now = "startTime + 6 * Minute" and lastSave = startTime
        and ws = "[Timer (startTime + 6 * Minute) False]" and err = False] c q minute_facts
    by (simp add: s l)
qed

text \<open>
  The claim as stated has the map serialized every minute. Six minutes after the start of
  the loop the timer wakes it, and nothing has been handed to the store.
\<close>

theorem C6_counterexample:
  "sets (Run_loop loadedRegistry startTime [Timer (startTime + 6 * Minute) False]) = []
   \<and> states (Run_loop loadedRegistry startTime [Timer (startTime + 6 * Minute) False])
       = states loadedRegistry"
proof -
  have "quietWakes startTime [Timer (startTime + 6 * Minute) False]"
    using minute_facts(1) by simp
  then have "sets (Run_loop loadedRegistry startTime [Timer (startTime + 6 * Minute) False])
      = sets loadedRegistry"
    by (rule quiet_loop)
  moreover have "states (Run_loop loadedRegistry startTime [Timer (startTime + 6 * Minute) False])
      = states loadedRegistry"
    by (simp add: Sub_gt_60 Let_def run_states loadedRegistry_def firingState_def staleState_def
        Minute_def Second_def)
  ultimately show ?thesis
    by (simp add: loadedRegistry_def)
qed

section \<open>Properties of the pushed points\<close>













lemma Sub_gt_5: "(pushedPointsCleanupInterval < Sub t u) = (5 * Minute < t - u)"
proof -
  have "minDuration \<le> 5 * Minute" "5 * Minute < maxDuration"
    by (simp_all add: minDuration_def maxDuration_def Minute_def Second_def)
  then show ?thesis
    by (auto simp: Sub_def pushedPointsCleanupInterval_def)
qed



























lemma onePush:
  "pushPoint fst emptyRegistry [cpuPoint] Second startTime =
     \<lparr>pushedPoints = [(''cpu_used'', cpuPoint)],
      pushedPointsExpiration = [(''cpu_used'', startTime + Second)],
      lastPushedPointsCleanup = startTime, forwarded = None\<rparr>"
  by (auto simp: pushPoint_def emptyRegistry_def cpuPoint_def Add_def Sub_gt_5 zeroTime_def
      expiredKeys_def without_def After_def startTime_def Minute_def Second_def)



lemma onePush_collected:
  "pushCollector_Collect hasName (pushPoint fst emptyRegistry [cpuPoint] Second startTime)
       (startTime + 1100 * Millisecond) =
     (\<lparr>pushedPoints = [], pushedPointsExpiration = [],
       lastPushedPointsCleanup = startTime + 1100 * Millisecond, forwarded = None\<rparr>, [], False)"
  unfolding onePush
  by (simp add: pushCollector_Collect_def expirationOf_def After_def Second_def Millisecond_def)






section \<open>Properties of the password generation\<close>

lemma letters_length: "length letters = 55"
  by (simp add: letters_def)

lemma letters_distinct: "distinct letters"
  by (simp add: letters_def)

lemma fillPassword_succeed:
  "drawsSucceed env i k \<Longrightarrow>
   fillPassword env i k
     = (Inr (map (\<lambda>j. letters ! nat (drawn env j)) [i..<i + k]), replicate k CryptoRandInt)"
proof (induction k arbitrary: i)
  case 0
  show ?case by simp
next
  case (Suc k)
  from Suc.prems obtain bigN where c: "cryptoInt env i = (Some bigN, False)"
    by (cases "cryptoInt env i") auto
  from Suc.prems have r: "0 \<le> drawn env i" "drawn env i < int (length letters)"
    and d: "drawsSucceed env (Suc i) k"
    by simp_all
  have f: "fillPassword env (Suc i) k
      = (Inr (map (\<lambda>j. letters ! nat (drawn env j)) [Suc i..<Suc i + k]), replicate k CryptoRandInt)"
    by (rule Suc.IH [OF d])
  have u: "[i..<i + Suc k] = i # [Suc i..<Suc i + k]"
    by (simp add: upt_conv_Cons)
  have ia: "drawn env i = bigN"
    by (simp add: drawn_def c)
  have "fillPassword env i (Suc k)
      = (Inr (letters ! nat (drawn env i) # map (\<lambda>j. letters ! nat (drawn env j)) [Suc i..<Suc i + k]),
         CryptoRandInt # replicate k CryptoRandInt)"
    using r by (simp add: c f ia Let_def del: upt_Suc)
  then show ?case
    unfolding u by simp
qed

lemma drawsSucceed_range:
  "drawsSucceed env i k \<Longrightarrow> i \<le> j \<Longrightarrow> j < i + k \<Longrightarrow>
   0 \<le> drawn env j \<and> drawn env j < int (length letters)"
proof (induction k arbitrary: i)
  case 0
  then show ?case by simp
next
  case (Suc k)
  show ?case
  proof (cases "j = i")
    case True
    with Suc.prems show ?thesis by simp
  next
    case False
    with Suc.prems have "drawsSucceed env (Suc i) k" "Suc i \<le> j" "j < Suc i + k" by simp_all
    then show ?thesis by (rule Suc.IH)
  qed
qed

lemma fillPassword_calls: "set (snd (fillPassword env i k)) \<subseteq> {CryptoRandInt, MathRandIntn}"
proof (induction k arbitrary: i)
  case 0
  show ?case by simp
next
  case (Suc k)
  have "set (snd (fillPassword env (Suc i) k)) \<subseteq> {CryptoRandInt, MathRandIntn}"
    by (rule Suc.IH)
  then show ?case
    by (cases "fillPassword env (Suc i) k")
       (auto simp: Let_def split: prod.splits option.splits sum.splits if_splits)
qed

text \<open>
  C9 (as amended). When every cryptographic draw succeeds, \<open>generatePassword 10\<close> returns a
  string of exactly 10 characters, each from an alphabet of 55 distinct characters; the
  index of each character is the number drawn by \<open>cryptoRand.Int\<close>, the only source called.
  Whatever the draws and the length, the function calls nothing but the two random sources:
  it never writes a log.
\<close>

theorem C9_generatePassword:
  "(drawsSucceed env 0 10 \<longrightarrow>
      generatePassword env 10
        = (Inr (map (\<lambda>j. letters ! nat (drawn env j)) [0..<10]), replicate 10 CryptoRandInt)
      \<and> length (map (\<lambda>j. letters ! nat (drawn env j)) [0..<10]) = 10
      \<and> set (map (\<lambda>j. letters ! nat (drawn env j)) [0..<10]) \<subseteq> set letters)
   \<and> length letters = 55 \<and> distinct letters
   \<and> set (snd (generatePassword env len)) \<subseteq> {CryptoRandInt, MathRandIntn}"
proof -
  have calls: "set (snd (generatePassword env len)) \<subseteq> {CryptoRandInt, MathRandIntn}"
    using fillPassword_calls [of env 0 "nat len"] by (simp add: generatePassword_def)
  have ok: "drawsSucceed env 0 10 \<longrightarrow>
      generatePassword env 10
        = (Inr (map (\<lambda>j. letters ! nat (drawn env j)) [0..<10]), replicate 10 CryptoRandInt)
      \<and> length (map (\<lambda>j. letters ! nat (drawn env j)) [0..<10]) = 10
      \<and> set (map (\<lambda>j. letters ! nat (drawn env j)) [0..<10]) \<subseteq> set letters"
  proof
    assume a: "drawsSucceed env 0 10"
    have f: "fillPassword env 0 10
        = (Inr (map (\<lambda>j. letters ! nat (drawn env j)) [0..<0 + 10]), replicate 10 CryptoRandInt)"
      by (rule fillPassword_succeed [OF a])
    have sub: "set (map (\<lambda>j. letters ! nat (drawn env j)) [0..<10]) \<subseteq> set letters"
    proof
      fix c
      assume "c \<in> set (map (\<lambda>j. letters ! nat (drawn env j)) [0..<10])"
      then obtain j where j: "j < 10" "c = letters ! nat (drawn env j)"
        by auto
      have "0 \<le> drawn env j \<and> drawn env j < int (length letters)"
        using drawsSucceed_range [OF a, of j] j(1) by simp
      then have "nat (drawn env j) < length letters"
        by linarith
      with j show "c \<in> set letters"
        by simp
    qed
    show "generatePassword env 10
        = (Inr (map (\<lambda>j. letters ! nat (drawn env j)) [0..<10]), replicate 10 CryptoRandInt)
      \<and> length (map (\<lambda>j. letters ! nat (drawn env j)) [0..<10]) = 10
      \<and> set (map (\<lambda>j. letters ! nat (drawn env j)) [0..<10]) \<subseteq> set letters"
      using f sub by (simp add: generatePassword_def del: upt_Suc replicate.simps)
  qed
  show ?thesis
    using ok calls letters_length letters_distinct by blast
qed

lemma lastLetter_draws: "drawsSucceed lastLetterEntropy 0 10"
  by (simp add: eval_nat_numeral lastLetterEntropy_def drawn_def letters_length)

lemma lastLetter_password:
  "map (\<lambda>j. letters ! nat (drawn lastLetterEntropy j)) [0..<10] = ''9999999999''"
proof -
  have "letters ! nat 54 = CHR ''9''"
    by (simp add: letters_def)
  then show ?thesis
    by (simp add: drawn_def lastLetterEntropy_def upt_rec)
qed

theorem C9_generatePassword_witness:
  "drawsSucceed lastLetterEntropy 0 10
   \<and> generatePassword lastLetterEntropy 10 = (Inr ''9999999999'', replicate 10 CryptoRandInt)
   \<and> length ''9999999999'' = 10 \<and> length letters = 55"
proof -
  have "generatePassword lastLetterEntropy 10
      = (Inr (map (\<lambda>j. letters ! nat (drawn lastLetterEntropy j)) [0..<10]),
         replicate 10 CryptoRandInt)"
    using C9_generatePassword [of lastLetterEntropy] lastLetter_draws by blast
  moreover have "length letters = 55"
    using C9_generatePassword [of lastLetterEntropy] by blast
  ultimately show ?thesis
    using lastLetter_draws by (simp only: lastLetter_password) simp
qed

text \<open>
  The claim as stated has an alphabet of 54 characters and a log entry on an entropy
  failure. The alphabet has 55 distinct characters, and a draw of 54, which
  \<open>cryptoRand.Int\<close> may return below the bound 55, selects the last of them. When the
  first draw fails, the only call made is that draw: nothing is logged.
\<close>

theorem C9_counterexample:
  "length letters = 55 \<and> distinct letters \<and> letters ! 54 = CHR ''9''
   \<and> fst (generatePassword lastLetterEntropy 10) = Inr ''9999999999''
   \<and> generatePassword failingEntropy 10 = (Inl NilDereference, [CryptoRandInt])"
proof -
  have n: "generatePassword failingEntropy 10 = (Inl NilDereference, [CryptoRandInt])"
    by (simp add: generatePassword_def failingEntropy_def eval_nat_numeral)
  have "fillPassword lastLetterEntropy 0 10
      = (Inr (map (\<lambda>j. letters ! nat (drawn lastLetterEntropy j)) [0..<0 + 10]),
         replicate 10 CryptoRandInt)"
    by (rule fillPassword_succeed [OF lastLetter_draws])
  then have "fst (generatePassword lastLetterEntropy 10) = Inr ''9999999999''"
    using lastLetter_password by (simp add: generatePassword_def del: upt_Suc replicate.simps)
  moreover have "letters ! 54 = CHR ''9''"
    by (simp add: letters_def)
  ultimately show ?thesis
    using n by (simp add: letters_length letters_distinct)
qed

text \<open>
  A draw that returns a nil number, which is what \<open>cryptoRand.Int\<close> returns together with
  an error, ends in a panic before the error is tested.
\<close>

lemma nil_draw_panics:
  "fst (cryptoInt env 0) = None \<Longrightarrow> 0 < len \<Longrightarrow>
   generatePassword env len = (Inl NilDereference, [CryptoRandInt])"
proof -
  assume a: "fst (cryptoInt env 0) = None" and l: "0 < len"
  obtain k where k: "nat len = Suc k"
    using l by (cases "nat len") auto
  obtain e where "cryptoInt env 0 = (None, e)"
    using a by (cases "cryptoInt env 0") auto
  then show ?thesis
    using l by (simp add: generatePassword_def k)
qed


section \<open>Properties of the listen addresses\<close>

lemma digitVal_digitChar: "d < 10 \<Longrightarrow> digitVal (digitChar d) = Some d"
proof -
  assume "d < 10"
  then have "d \<in> {0, 1, 2, 3, 4, 5, 6, 7, 8, 9}" by auto
  then show ?thesis
    by (auto simp: digitVal_def indexByte_def digitChar_def)
qed

lemma digitChar_plain:
  "d < 10 \<Longrightarrow> digitChar d \<notin> {CHR '':'', CHR ''['', CHR '']'', CHR ''-'', CHR ''+''}"
proof -
  assume "d < 10"
  then have "d \<in> {0, 1, 2, 3, 4, 5, 6, 7, 8, 9}" by auto
  then show ?thesis
    by (auto simp: digitChar_def)
qed

lemma parseDigits_snoc:
  "parseDigits acc (xs @ [c]) =
     (case parseDigits acc xs of
        None \<Rightarrow> None
      | Some a \<Rightarrow> (case digitVal c of None \<Rightarrow> None | Some d \<Rightarrow> Some (a * 10 + d)))"
  by (induction xs arbitrary: acc) (auto split: option.splits)

lemma parseDigits_digitsOf: "parseDigits 0 (digitsOf n) = Some n"
proof (induction n rule: digitsOf.induct)
  case (1 n)
  show ?case
  proof (cases "n < 10")
    case True
    then show ?thesis
      by (subst digitsOf.simps) (simp add: digitVal_digitChar)
  next
    case False
    then have "parseDigits 0 (digitsOf (n div 10)) = Some (n div 10)"
      using "1.IH" by simp
    then show ?thesis
      using False
      by (subst digitsOf.simps) (simp add: parseDigits_snoc digitVal_digitChar)
  qed
qed

lemma digitsOf_chars:
  "c \<in> set (digitsOf n) \<Longrightarrow> c \<notin> {CHR '':'', CHR ''['', CHR '']'', CHR ''-'', CHR ''+''}"
proof (induction n rule: digitsOf.induct)
  case (1 n)
  show ?case
  proof (cases "n < 10")
    case True
    with "1.prems" have "c = digitChar n"
      by (subst (asm) digitsOf.simps) simp
    then show ?thesis using digitChar_plain [OF True] by simp
  next
    case False
    with "1.prems" have "c \<in> set (digitsOf (n div 10)) \<or> c = digitChar (n mod 10)"
      by (subst (asm) digitsOf.simps) auto
    then show ?thesis
      using "1.IH" [OF False] digitChar_plain [of "n mod 10"] by auto
  qed
qed

lemma digitsOf_not_Nil: "digitsOf n \<noteq> []"
  by (subst digitsOf.simps) simp

lemma itoa_chars: "c \<in> set (itoa p) \<Longrightarrow> c \<notin> {CHR '':'', CHR ''['', CHR '']''}"
  using digitsOf_chars by (auto simp: itoa_def split: if_splits)

lemma ParseInt_itoa:
  "ParseInt (itoa p) = (if minInt64 \<le> p \<and> p \<le> maxInt64 then Inr p else Inl ErrRange)"
proof (cases "p < 0")
  case True
  have n: "digitsOf (nat (- p)) \<noteq> []" by (rule digitsOf_not_Nil)
  have m: "p < 0 \<Longrightarrow> p \<le> maxInt64"
    by (simp add: maxInt64_def)
  have "ParseInt (CHR ''-'' # digitsOf (nat (- p)))
      = (if - int (nat (- p)) < minInt64 \<or> maxInt64 < - int (nat (- p)) then Inl ErrRange
         else Inr (- int (nat (- p))))"
    using n by (simp add: ParseInt_def parseDigits_digitsOf Let_def)
  then show ?thesis
    using True m by (auto simp: itoa_def)
next
  case False
  obtain c cs where d: "digitsOf (nat p) = c # cs"
    using digitsOf_not_Nil [of "nat p"] by (cases "digitsOf (nat p)") auto
  then have "c \<in> set (digitsOf (nat p))" by simp
  then have c: "c \<noteq> CHR ''-''" "c \<noteq> CHR ''+''"
    using digitsOf_chars by auto
  have pd: "parseDigits 0 (c # cs) = Some (nat p)"
    using parseDigits_digitsOf [of "nat p"] d by simp
  have m: "\<not> p < 0 \<Longrightarrow> minInt64 \<le> p"
    by (simp add: minInt64_def)
  have "ParseInt (c # cs)
      = (if int (nat p) < minInt64 \<or> maxInt64 < int (nat p) then Inl ErrRange
         else Inr (int (nat p)))"
    using c by (simp add: ParseInt_def Let_def pd del: parseDigits.simps)
  then show ?thesis
    using False m by (auto simp: itoa_def d)
qed

lemma lastIndex_sep:
  assumes "CHR '':'' \<notin> set t"
  shows "lastIndex CHR '':'' (a @ CHR '':'' # t) = Some (length a)"
proof -
  have "takeWhile (\<lambda>x. x \<noteq> CHR '':'') (rev t @ CHR '':'' # rev a)
      = takeWhile (\<lambda>x. x \<noteq> CHR '':'') (rev t)"
    by (rule takeWhile_tail) simp
  also have "\<dots> = rev t"
    using assms by (auto simp: takeWhile_eq_all_conv)
  finally show ?thesis
    by (simp add: lastIndex_def)
qed

lemma SplitHostPort_port:
  assumes "CHR '':'' \<notin> set t" "SplitHostPort (a @ CHR '':'' # t) = Inr (h, ps)"
  shows "ps = t"
  using assms(2)
  by (auto simp: SplitHostPort_def lastIndex_sep [OF assms(1)] split: if_splits option.splits sum.splits)

lemma SplitHostPort_plain:
  assumes "CHR '':'' \<notin> set t" "CHR ''['' \<notin> set t" "CHR '']'' \<notin> set t"
    "CHR '':'' \<notin> set a" "CHR ''['' \<notin> set a" "CHR '']'' \<notin> set a"
  shows "SplitHostPort (a @ CHR '':'' # t) = Inr (a, t)"
proof -
  have "hd (a @ CHR '':'' # t) \<noteq> CHR ''[''"
    using assms(5) by (cases a) auto
  then show ?thesis
    using assms by (simp add: SplitHostPort_def lastIndex_sep [OF assms(1)])
qed

lemma parsedPort_port:
  assumes "network v \<noteq> ''unix''" "parsedPort v = Some p"
  shows "p = port v"
proof -
  have c: "CHR '':'' \<notin> set (itoa (port v))"
    using itoa_chars by auto
  have s: "String v = address v @ CHR '':'' # itoa (port v)"
    using assms(1) by (simp add: String_def)
  from assms(2) obtain h ps where sp: "SplitHostPort (String v) = Inr (h, ps)"
    and pi: "ParseInt ps = Inr p"
    by (auto simp: parsedPort_def split: sum.splits)
  have "ps = itoa (port v)"
    using SplitHostPort_port [OF c] sp s by simp
  with pi show ?thesis
    by (simp add: ParseInt_itoa split: if_splits)
qed

lemma parsedPort_plain:
  assumes "network v \<noteq> ''unix''" "plainAddresses [v]"
  shows "parsedPort v = Some (port v)"
proof -
  have s: "String v = address v @ CHR '':'' # itoa (port v)"
    using assms(1) by (simp add: String_def)
  have "SplitHostPort (String v) = Inr (address v, itoa (port v))"
    unfolding s using assms itoa_chars [of _ "port v"]
    by (intro SplitHostPort_plain) auto
  then show ?thesis
    using assms by (simp add: parsedPort_def ParseInt_itoa)
qed


lemma addLoop_Cons:
  "addLoop n (v # rest) =
    (if network v \<noteq> network n then v # addLoop n rest
     else (case parsedPort v of
             None \<Rightarrow> v # rest
           | Some otherPort \<Rightarrow>
               if otherPort = port n
               then (if HasPrefix (address n) ''127.'' then n # rest else v # rest)
               else v # addLoop n rest))"
  by (simp add: parsedPort_def Network_def split: sum.splits prod.splits)

declare addLoop.simps(2) [simp del]

lemma addLoop_set: "set (addLoop n as) \<subseteq> insert n (set as)"
proof (induction as)
  case Nil
  show ?case by simp
next
  case (Cons v rest)
  then show ?case
    unfolding addLoop_Cons by (auto split: option.splits)
qed

lemma uniquePorts_Cons:
  "uniquePorts (v # rest) =
    ((network v = ''unix'' \<or> (\<forall>a \<in> set rest. network a \<noteq> ''unix'' \<longrightarrow> keyNP a \<noteq> keyNP v))
     \<and> uniquePorts rest)"
proof -
  have "(keyNP v \<notin> keyNP ` {x \<in> set rest. network x \<noteq> ''unix''})
      = (\<forall>a \<in> set rest. network a \<noteq> ''unix'' \<longrightarrow> keyNP a \<noteq> keyNP v)"
    by (auto simp: image_iff)
  then show ?thesis
    by (simp add: uniquePorts_def)
qed

lemma uniquePorts_keep:
  assumes u: "uniquePorts (v # rest)" and r: "uniquePorts (addLoop n rest)"
    and k: "network v = ''unix'' \<or> keyNP v \<noteq> keyNP n"
  shows "uniquePorts (v # addLoop n rest)"
proof -
  have "\<forall>a \<in> set (addLoop n rest). network v \<noteq> ''unix'' \<longrightarrow> network a \<noteq> ''unix'' \<longrightarrow> keyNP a \<noteq> keyNP v"
  proof (intro ballI impI)
    fix a
    assume a: "a \<in> set (addLoop n rest)" and nv: "network v \<noteq> ''unix''" and na: "network a \<noteq> ''unix''"
    from a addLoop_set have "a = n \<or> a \<in> set rest" by blast
    then show "keyNP a \<noteq> keyNP v"
    proof
      assume "a = n"
      with k nv show ?thesis by auto
    next
      assume "a \<in> set rest"
      with u nv na show ?thesis by (auto simp: uniquePorts_Cons)
    qed
  qed
  with r show ?thesis
    by (auto simp: uniquePorts_Cons)
qed

lemma uniquePorts_addLoop:
  assumes n: "network n \<noteq> ''unix''"
  shows "uniquePorts as \<Longrightarrow> uniquePorts (addLoop n as)"
proof (induction as)
  case Nil
  show ?case by (simp add: uniquePorts_def)
next
  case (Cons v rest)
  have r: "uniquePorts (addLoop n rest)"
    using Cons by (simp add: uniquePorts_Cons)
  show ?case
  proof (cases "network v \<noteq> network n")
    case True
    then have "network v = ''unix'' \<or> keyNP v \<noteq> keyNP n"
      by (simp add: keyNP_def)
    from uniquePorts_keep [OF Cons.prems r this] True show ?thesis
      by (simp add: addLoop_Cons)
  next
    case False
    then have same: "network v = network n" by simp
    show ?thesis
    proof (cases "parsedPort v")
      case None
      with same Cons.prems show ?thesis
        by (simp add: addLoop_Cons)
    next
      case (Some otherPort)
      have p: "otherPort = port v"
        using parsedPort_port [OF _ Some] same n by simp
      show ?thesis
      proof (cases "otherPort = port n")
        case True
        then have "keyNP n = keyNP v"
          using p same by (simp add: keyNP_def)
        then have "uniquePorts (n # rest)"
          using Cons.prems same by (simp add: uniquePorts_Cons)
        with Cons.prems same Some True show ?thesis
          by (simp add: addLoop_Cons)
      next
        case False
        then have "network v = ''unix'' \<or> keyNP v \<noteq> keyNP n"
          using p by (simp add: keyNP_def)
        from uniquePorts_keep [OF Cons.prems r this] same Some False show ?thesis
          by (simp add: addLoop_Cons)
      qed
    qed
  qed
qed

lemma addAddress_projectIPv6:
  "addAddress as n =
    (if network n \<noteq> ''unix''
     then (case projectIPv6 n of None \<Rightarrow> as | Some a \<Rightarrow> addLoop a as)
     else as @ [n])"
  by (simp add: addAddress_def projectIPv6_def Let_def)

lemma projectIPv6_network:
  "network n \<noteq> ''unix'' \<Longrightarrow> projectIPv6 n = Some a \<Longrightarrow> network a \<noteq> ''unix''"
  by (auto simp: projectIPv6_def Let_def split: if_splits)

lemma uniquePorts_addAddress: "uniquePorts as \<Longrightarrow> uniquePorts (addAddress as n)"
proof (cases "network n = ''unix''")
  case True
  assume "uniquePorts as"
  with True show ?thesis
    by (simp add: addAddress_projectIPv6 uniquePorts_def)
next
  case False
  assume u: "uniquePorts as"
  show ?thesis
  proof (cases "projectIPv6 n")
    case None
    with False u show ?thesis by (simp add: addAddress_projectIPv6)
  next
    case (Some a)
    have "network a \<noteq> ''unix''"
      using projectIPv6_network [OF False Some] .
    from uniquePorts_addLoop [OF this u] False Some show ?thesis
      by (simp add: addAddress_projectIPv6)
  qed
qed

lemma uniquePorts_foldl: "uniquePorts acc \<Longrightarrow> uniquePorts (foldl addAddress acc news)"
  by (induction news arbitrary: acc) (simp_all add: uniquePorts_addAddress)

lemma uniquePorts_insertAll: "uniquePorts (insertAll news)"
  unfolding insertAll_def by (rule uniquePorts_foldl) (simp add: uniquePorts_def)

lemma plain_parsed:
  "plainAddresses (v # rest) \<Longrightarrow> network v \<noteq> ''unix'' \<Longrightarrow> parsedPort v = Some (port v)"
  using parsedPort_plain [of v] by simp

lemma addLoop_absent:
  assumes n: "network n \<noteq> ''unix''"
  shows "plainAddresses as \<Longrightarrow> \<forall>v \<in> set as. keyNP v \<noteq> keyNP n \<Longrightarrow> addLoop n as = as @ [n]"
proof (induction as)
  case Nil
  show ?case by simp
next
  case (Cons v rest)
  have r: "addLoop n rest = rest @ [n]"
    using Cons by simp
  show ?case
  proof (cases "network v = network n")
    case False
    then show ?thesis by (simp add: addLoop_Cons r)
  next
    case True
    then have "parsedPort v = Some (port v)"
      using plain_parsed [OF Cons.prems(1)] n by simp
    moreover have "port v \<noteq> port n"
      using Cons.prems(2) True by (simp add: keyNP_def)
    ultimately show ?thesis
      using True by (simp add: addLoop_Cons r)
  qed
qed

lemma addLoop_present:
  assumes n: "network n \<noteq> ''unix''"
  shows "plainAddresses as \<Longrightarrow> uniquePorts as \<Longrightarrow> i < length as \<Longrightarrow> keyNP (as ! i) = keyNP n
    \<Longrightarrow> addLoop n as = (if HasPrefix (address n) ''127.'' then as[i := n] else as)"
proof (induction as arbitrary: i)
  case Nil
  then show ?case by simp
next
  case (Cons v rest)
  show ?case
  proof (cases i)
    case 0
    then have k: "network v = network n" "port v = port n"
      using Cons.prems(4) by (simp_all add: keyNP_def)
    then have "parsedPort v = Some (port n)"
      using plain_parsed [OF Cons.prems(1)] n by simp
    then show ?thesis
      using k 0 by (simp add: addLoop_Cons)
  next
    case (Suc j)
    then have j: "j < length rest" "keyNP (rest ! j) = keyNP n"
      using Cons.prems(3,4) by simp_all
    have ih: "addLoop n rest = (if HasPrefix (address n) ''127.'' then rest[j := n] else rest)"
      using Cons.IH [OF _ _ j] Cons.prems(1,2) by (simp add: uniquePorts_Cons)
    have mem: "rest ! j \<in> set rest" using j(1) by simp
    have "network (rest ! j) \<noteq> ''unix''"
      using j(2) n by (simp add: keyNP_def)
    then have d: "network v = ''unix'' \<or> keyNP v \<noteq> keyNP n"
      using Cons.prems(2) mem j(2) by (auto simp: uniquePorts_Cons)
    show ?thesis
    proof (cases "network v = network n")
      case False
      then show ?thesis by (simp add: addLoop_Cons ih Suc)
    next
      case True
      then have "parsedPort v = Some (port v)"
        using plain_parsed [OF Cons.prems(1)] n by simp
      moreover have "port v \<noteq> port n"
        using d True n by (simp add: keyNP_def)
      ultimately show ?thesis
        using True by (simp add: addLoop_Cons ih Suc)
    qed
  qed
qed

text \<open>
  C5 (as amended). In the list built by any sequence of insertions, no two addresses other
  than unix sockets share network and port. A unix socket is appended to the list as it
  comes, whatever the list holds; a candidate that the IPv6 projection drops leaves the list
  as it is. Let a candidate that is no unix socket pass the IPv6 projection and be inserted
  into a list whose tcp and udp entries are IPv4 addresses. If no entry has its network and
  port, the candidate is appended. If an entry has them, one of the two survives at that
  position: the candidate when its address starts with \<open>127.\<close>, else the entry; so if one of
  the two starts with \<open>127.\<close>, the survivor does.
\<close>

theorem C5_netstat_dedup:
  "uniquePorts (insertAll news)
   \<and> (network n = ''unix'' \<longrightarrow> addAddress as n = as @ [n])
   \<and> (network n \<noteq> ''unix'' \<and> projectIPv6 n = None \<longrightarrow> addAddress as n = as)
   \<and> (plainAddresses as \<and> uniquePorts as \<and> network n \<noteq> ''unix'' \<and> projectIPv6 n = Some a \<longrightarrow>
        ((\<forall>v \<in> set as. keyNP v \<noteq> keyNP a) \<longrightarrow> addAddress as n = as @ [a])
        \<and> (\<forall>i < length as. keyNP (as ! i) = keyNP a \<longrightarrow>
              addAddress as n = (if HasPrefix (address a) ''127.'' then as[i := a] else as)
              \<and> (HasPrefix (address a) ''127.'' \<or> HasPrefix (address (as ! i)) ''127.'' \<longrightarrow>
                   HasPrefix (address (addAddress as n ! i)) ''127.'')))"
proof (intro conjI impI allI)
  show "uniquePorts (insertAll news)"
    by (rule uniquePorts_insertAll)
next
  assume "network n = ''unix''"
  then show "addAddress as n = as @ [n]"
    by (simp add: addAddress_projectIPv6)
next
  assume "network n \<noteq> ''unix'' \<and> projectIPv6 n = None"
  then show "addAddress as n = as"
    by (simp add: addAddress_projectIPv6)
next
  assume h: "plainAddresses as \<and> uniquePorts as \<and> network n \<noteq> ''unix'' \<and> projectIPv6 n = Some a"
  then have na: "network a \<noteq> ''unix''"
    using projectIPv6_network by blast
  have aa: "addAddress as n = addLoop a as"
    using h by (simp add: addAddress_projectIPv6)
  { assume "\<forall>v \<in> set as. keyNP v \<noteq> keyNP a"
    then show "addAddress as n = as @ [a]"
      using addLoop_absent [OF na] h aa by simp }
  fix i
  assume i: "i < length as" and k: "keyNP (as ! i) = keyNP a"
  show r: "addAddress as n = (if HasPrefix (address a) ''127.'' then as[i := a] else as)"
    using addLoop_present [OF na _ _ i k] h aa by simp
  assume "HasPrefix (address a) ''127.'' \<or> HasPrefix (address (as ! i)) ''127.''"
  then show "HasPrefix (address (addAddress as n ! i)) ''127.''"
    using i by (auto simp: r)
qed

lemma loopback_facts:
  "plainAddresses [tcpAny80]" "uniquePorts [tcpAny80]" "network tcp6Loop80 \<noteq> ''unix''"
  "projectIPv6 tcp6Loop80 = Some tcpLoop80" "keyNP ([tcpAny80] ! 0) = keyNP tcpLoop80"
  "HasPrefix (address tcpLoop80) ''127.''" "\<not> HasPrefix (address tcpAny80) ''127.''"
  by (simp_all add: tcpAny80_def tcp6Loop80_def tcpLoop80_def uniquePorts_def projectIPv6_def
      keyNP_def HasPrefix_def minInt64_def maxInt64_def Let_def)

theorem C5_netstat_dedup_witness:
  "plainAddresses [tcpAny80] \<and> uniquePorts [tcpAny80] \<and> network tcp6Loop80 \<noteq> ''unix''
   \<and> projectIPv6 tcp6Loop80 = Some tcpLoop80 \<and> keyNP ([tcpAny80] ! 0) = keyNP tcpLoop80
   \<and> HasPrefix (address tcpLoop80) ''127.'' \<and> \<not> HasPrefix (address tcpAny80) ''127.''
   \<and> addAddress [tcpAny80] tcp6Loop80 = [tcpLoop80]
   \<and> uniquePorts (insertAll [tcpAny80, tcp6Loop80, unixA, unixB])
   \<and> network unixB = ''unix'' \<and> addAddress [tcpAny80, unixA] unixB = [tcpAny80, unixA, unixB]"
proof -
  note t = C5_netstat_dedup [where news = "[tcpAny80, tcp6Loop80, unixA, unixB]"
      and as = "[tcpAny80]" and n = tcp6Loop80 and a = tcpLoop80]
  have u: "uniquePorts (insertAll [tcpAny80, tcp6Loop80, unixA, unixB])"
    using t by blast
  have "\<forall>i < length [tcpAny80]. keyNP ([tcpAny80] ! i) = keyNP tcpLoop80 \<longrightarrow>
      addAddress [tcpAny80] tcp6Loop80
        = (if HasPrefix (address tcpLoop80) ''127.'' then [tcpAny80][i := tcpLoop80] else [tcpAny80])"
    using t loopback_facts(1-4) by blast
  then have a: "addAddress [tcpAny80] tcp6Loop80 = [tcpLoop80]"
    using loopback_facts(5,6) by simp
  have x: "network unixB = ''unix''"
    by (simp add: unixB_def)
  have "addAddress [tcpAny80, unixA] unixB = [tcpAny80, unixA] @ [unixB]"
    using C5_netstat_dedup [where n = unixB and as = "[tcpAny80, unixA]"] x by blast
  then have "addAddress [tcpAny80, unixA] unixB = [tcpAny80, unixA, unixB]"
    by simp
  with a u x loopback_facts show ?thesis
    by blast
qed

text \<open>
  The claim as stated covers every address of the set. Two unix sockets of one PID are both
  kept, and both have the network \<open>unix\<close> and the port 0.
\<close>

theorem C5_counterexample:
  "insertAll [unixA, unixB] = [unixA, unixB] \<and> network unixA = network unixB
   \<and> port unixA = port unixB \<and> unixA \<noteq> unixB"
  by (simp add: insertAll_def addAddress_def unixA_def unixB_def)

end
